theory Spec2Isabelle
  imports Complex_Main
begin

section \<open>Python numbers\<close>

text \<open>
  The drawer computes with Python ints (unbounded, exact) and Python floats (IEEE binary64).
  A float is modelled by the real number it denotes, and every float operation rounds its
  exact result to 53 significant bits, ties to even (\<open>fl\<close>).  The exponent range is not
  bounded in the model: it is faithful while magnitudes stay inside binary64's normal range
  (no overflow to infinity, no subnormal results, no NaN), which covers every value the
  drawer derives from canvas coordinates.
\<close>

definition rhe :: "real \<Rightarrow> int" where
  \<comment> \<open>round to the nearest integer, ties to the even neighbour\<close>
  "rhe x = (let f = \<lfloor>x\<rfloor>; d = x - of_int f in
              if d < 1/2 then f else if 1/2 < d then f + 1
              else if even f then f else f + 1)"

definition fl :: "real \<Rightarrow> real" where
  \<comment> \<open>the binary64 value nearest to a real: 53-bit significand, ties to even\<close>
  "fl x = (if x = 0 then 0
           else let e = \<lfloor>log 2 \<bar>x\<bar>\<rfloor> - 52 in of_int (rhe (x / 2 powi e)) * 2 powi e)"

datatype pynum = PInt int | PFloat real

fun val :: "pynum \<Rightarrow> real" where
  "val (PInt i) = of_int i"
| "val (PFloat r) = r"

fun to_float :: "pynum \<Rightarrow> real" where
  \<comment> \<open>the conversion Python applies to an int operand of a float operation\<close>
  "to_float (PInt i) = fl (of_int i)"
| "to_float (PFloat r) = r"

fun py_add :: "pynum \<Rightarrow> pynum \<Rightarrow> pynum" where
  "py_add (PInt a) (PInt b) = PInt (a + b)"
| "py_add a b = PFloat (fl (to_float a + to_float b))"

fun py_sub :: "pynum \<Rightarrow> pynum \<Rightarrow> pynum" where
  "py_sub (PInt a) (PInt b) = PInt (a - b)"
| "py_sub a b = PFloat (fl (to_float a - to_float b))"

fun py_mul :: "pynum \<Rightarrow> pynum \<Rightarrow> pynum" where
  "py_mul (PInt a) (PInt b) = PInt (a * b)"
| "py_mul a b = PFloat (fl (to_float a * to_float b))"

fun py_truediv :: "pynum \<Rightarrow> pynum \<Rightarrow> pynum" where
  \<comment> \<open>\<open>a / b\<close>; int by int is the correctly rounded exact quotient.  Every divisor in the
      modelled code is a non-zero constant or is tested against zero first.\<close>
  "py_truediv (PInt a) (PInt b) = PFloat (fl (of_int a / of_int b))"
| "py_truediv a b = PFloat (fl (to_float a / to_float b))"

fun py_sq :: "pynum \<Rightarrow> pynum" where
  \<comment> \<open>\<open>a ** 2\<close>\<close>
  "py_sq (PInt a) = PInt (a * a)"
| "py_sq (PFloat r) = PFloat (fl (r * r))"

definition py_sqrt :: "pynum \<Rightarrow> pynum" where
  \<comment> \<open>\<open>math.sqrt\<close>, only ever applied to a sum of squares\<close>
  "py_sqrt a = PFloat (fl (sqrt (to_float a)))"

definition py_le :: "pynum \<Rightarrow> pynum \<Rightarrow> bool" where
  "py_le a b = (val a \<le> val b)"

definition py_lt :: "pynum \<Rightarrow> pynum \<Rightarrow> bool" where
  "py_lt a b = (val a < val b)"

definition py_eq :: "pynum \<Rightarrow> pynum \<Rightarrow> bool" where
  "py_eq a b = (val a = val b)"

definition py_min :: "pynum \<Rightarrow> pynum \<Rightarrow> pynum" where
  \<comment> \<open>\<open>min(a, b)\<close>: the first argument unless the second is strictly smaller\<close>
  "py_min a b = (if py_lt b a then b else a)"

definition py_max :: "pynum \<Rightarrow> pynum \<Rightarrow> pynum" where
  "py_max a b = (if py_lt a b then b else a)"

fun py_round :: "pynum \<Rightarrow> int" where
  \<comment> \<open>\<open>round(a)\<close> with one argument: an int, ties to even\<close>
  "py_round (PInt i) = i"
| "py_round (PFloat r) = rhe r"

section \<open>Python lists\<close>

datatype py_error = IndexError | TypeError

definition py_index :: "'a list \<Rightarrow> int \<Rightarrow> py_error + nat" where
  \<comment> \<open>the position a subscript denotes: negative subscripts count from the end\<close>
  "py_index xs i =
     (let n = int (length xs); j = (if i < 0 then i + n else i)
      in if 0 \<le> j \<and> j < n then Inr (nat j) else Inl IndexError)"

definition py_getitem :: "'a list \<Rightarrow> int \<Rightarrow> py_error + 'a" where
  "py_getitem xs i = (case py_index xs i of Inl e \<Rightarrow> Inl e | Inr j \<Rightarrow> Inr (xs ! j))"

definition py_setitem :: "'a list \<Rightarrow> int \<Rightarrow> 'a \<Rightarrow> py_error + 'a list" where
  "py_setitem xs i v = (case py_index xs i of Inl e \<Rightarrow> Inl e | Inr j \<Rightarrow> Inr (xs[j := v]))"

definition pop_at :: "'a list \<Rightarrow> nat \<Rightarrow> 'a list" where
  \<comment> \<open>\<open>xs.pop(i)\<close> for a subscript already checked to be in range\<close>
  "pop_at xs i = take i xs @ drop (Suc i) xs"

definition py_insert :: "'a list \<Rightarrow> int \<Rightarrow> 'a \<Rightarrow> 'a list" where
  \<comment> \<open>\<open>xs.insert(i, v)\<close>: never raises, the subscript is clamped into \<open>0..len\<close>\<close>
  "py_insert xs i v =
     (let n = int (length xs);
          j = (if i < 0 then max 0 (i + n) else min i n)
      in take (nat j) xs @ v # drop (nat j) xs)"

section \<open>The drawer\<close>

type_synonym point = "int \<times> int"
type_synonym route = "point list"

text \<open>
  The attributes of \<open>TrackingRouteDrawer\<close> that the route engine reads or writes.  The
  widgets, the colours and the two \<open>drag_start\<close> attributes (written on a press, never read)
  are left out; \<open>None\<close> in \<open>drag_route_idx\<close> and \<open>drag_point_idx\<close> is \<open>None\<close> here.
  \<open>routes\<close> holds copies (\<open>start_new_route\<close> appends \<open>current_route.copy()\<close>), so no two
  routes share a list object and lists are modelled by value.
\<close>

record drawer =
  routes :: "route list"
  current_route :: route
  dragging :: bool
  drag_route_idx :: "int option"
  drag_point_idx :: "int option"

definition grid_size :: int where "grid_size = 20"
definition origin_x :: int where "origin_x = 0"
definition origin_y :: int where "origin_y = 0"
definition click_tolerance :: int where "click_tolerance = 8"

definition init :: drawer where
  "init = \<lparr>routes = [], current_route = [], dragging = False,
           drag_route_idx = None, drag_point_idx = None\<rparr>"

subsection \<open>Coordinate system\<close>

definition canvas_to_coord_x :: "int \<Rightarrow> int" where
  "canvas_to_coord_x canvas_x = py_round (py_truediv (PInt (canvas_x - origin_x)) (PInt grid_size))"

definition canvas_to_coord_y :: "int \<Rightarrow> int" where
  "canvas_to_coord_y canvas_y = py_round (py_truediv (PInt (canvas_y - origin_y)) (PInt grid_size))"

definition coord_to_canvas_x :: "int \<Rightarrow> int" where
  "coord_to_canvas_x coord_x = origin_x + coord_x * grid_size"

definition coord_to_canvas_y :: "int \<Rightarrow> int" where
  "coord_to_canvas_y coord_y = origin_y + coord_y * grid_size"

subsection \<open>Hit testing\<close>

definition point_hit :: "int \<Rightarrow> int \<Rightarrow> point \<Rightarrow> bool" where
  \<comment> \<open>the test \<open>distance <= self.click_tolerance\<close> of \<open>find_point_at_position\<close>\<close>
  "point_hit canvas_x canvas_y p =
     (let point_canvas_x = coord_to_canvas_x (fst p);
          point_canvas_y = coord_to_canvas_y (snd p);
          distance = py_sqrt (py_add (py_sq (PInt (canvas_x - point_canvas_x)))
                                     (py_sq (PInt (canvas_y - point_canvas_y))))
      in py_le distance (PInt click_tolerance))"

fun scan_route :: "int \<Rightarrow> int \<Rightarrow> nat \<Rightarrow> route \<Rightarrow> nat option" where
  \<comment> \<open>\<open>for i, point in enumerate(route)\<close>, counting from the given index\<close>
  "scan_route cx cy i [] = None"
| "scan_route cx cy i (p # ps) =
     (if point_hit cx cy p then Some i else scan_route cx cy (Suc i) ps)"

fun scan_routes :: "int \<Rightarrow> int \<Rightarrow> nat \<Rightarrow> route list \<Rightarrow> (int \<times> int) option" where
  "scan_routes cx cy route_idx [] = None"
| "scan_routes cx cy route_idx (r # rs) =
     (case scan_route cx cy 0 r of
        Some point_idx \<Rightarrow> Some (int route_idx, int point_idx)
      | None \<Rightarrow> scan_routes cx cy (Suc route_idx) rs)"

definition find_point_at_position :: "int \<Rightarrow> int \<Rightarrow> drawer \<Rightarrow> (int \<times> int) option" where
  "find_point_at_position canvas_x canvas_y s =
     (case scan_route canvas_x canvas_y 0 (current_route s) of
        Some i \<Rightarrow> Some (- 1, int i)
      | None \<Rightarrow> scan_routes canvas_x canvas_y 0 (routes s))"

definition is_point_on_line :: "int \<Rightarrow> int \<Rightarrow> point \<Rightarrow> point \<Rightarrow> bool" where
  "is_point_on_line canvas_x canvas_y point1 point2 =
     (let x1 = coord_to_canvas_x (fst point1);
          y1 = coord_to_canvas_y (snd point1);
          x2 = coord_to_canvas_x (fst point2);
          y2 = coord_to_canvas_y (snd point2);
          line_length_sq = (x2 - x1) * (x2 - x1) + (y2 - y1) * (y2 - y1)
      in if line_length_sq = 0 then False
         else
           let t = py_max (PInt 0) (py_min (PInt 1)
                     (py_truediv (PInt ((canvas_x - x1) * (x2 - x1) + (canvas_y - y1) * (y2 - y1)))
                                 (PInt line_length_sq)));
               closest_x = py_add (PInt x1) (py_mul t (PInt (x2 - x1)));
               closest_y = py_add (PInt y1) (py_mul t (PInt (y2 - y1)));
               distance = py_sqrt (py_add (py_sq (py_sub (PInt canvas_x) closest_x))
                                          (py_sq (py_sub (PInt canvas_y) closest_y)))
           in py_le distance (PInt click_tolerance))"

fun scan_lines :: "int \<Rightarrow> int \<Rightarrow> nat \<Rightarrow> route \<Rightarrow> nat option" where
  \<comment> \<open>\<open>for i in range(len(route) - 1)\<close> over \<open>route[i]\<close>, \<open>route[i + 1]\<close>\<close>
  "scan_lines cx cy i (point1 # point2 # ps) =
     (if is_point_on_line cx cy point1 point2 then Some i
      else scan_lines cx cy (Suc i) (point2 # ps))"
| "scan_lines cx cy i ps = None"

fun scan_routes_lines :: "int \<Rightarrow> int \<Rightarrow> nat \<Rightarrow> route list \<Rightarrow> (int \<times> int \<times> int) option" where
  "scan_routes_lines cx cy route_idx [] = None"
| "scan_routes_lines cx cy route_idx (r # rs) =
     (case scan_lines cx cy 0 r of
        Some i \<Rightarrow> Some (int route_idx, int i, int i + 1)
      | None \<Rightarrow> scan_routes_lines cx cy (Suc route_idx) rs)"

definition find_line_at_position :: "int \<Rightarrow> int \<Rightarrow> drawer \<Rightarrow> (int \<times> int \<times> int) option" where
  "find_line_at_position canvas_x canvas_y s =
     (case scan_lines canvas_x canvas_y 0 (current_route s) of
        Some i \<Rightarrow> Some (- 1, int i, int i + 1)
      | None \<Rightarrow> scan_routes_lines canvas_x canvas_y 0 (routes s))"




subsection \<open>Route store\<close>

definition start_new_route :: "drawer \<Rightarrow> drawer" where
  "start_new_route s =
     (let s1 = (if current_route s \<noteq> [] then s\<lparr>routes := routes s @ [current_route s]\<rparr> else s)
      in s1\<lparr>current_route := []\<rparr>)"

definition clear_all :: "drawer \<Rightarrow> drawer" where
  "clear_all s = s\<lparr>routes := [], current_route := []\<rparr>"

definition undo_last_point :: "drawer \<Rightarrow> drawer" where
  "undo_last_point s =
     (if current_route s \<noteq> [] then s\<lparr>current_route := butlast (current_route s)\<rparr> else s)"

definition remove_point :: "int \<Rightarrow> int \<Rightarrow> drawer \<Rightarrow> drawer" where
  "remove_point route_idx point_idx s =
     (if route_idx = - 1 then
        (if 0 \<le> point_idx \<and> point_idx < int (length (current_route s))
         then s\<lparr>current_route := pop_at (current_route s) (nat point_idx)\<rparr>
         else s)
      else
        (if 0 \<le> route_idx \<and> route_idx < int (length (routes s))
            \<and> 0 \<le> point_idx \<and> point_idx < int (length (routes s ! nat route_idx))
         then
           let rs = (routes s)[nat route_idx := pop_at (routes s ! nat route_idx) (nat point_idx)]
           in if rs ! nat route_idx = [] then s\<lparr>routes := pop_at rs (nat route_idx)\<rparr>
              else s\<lparr>routes := rs\<rparr>
         else s))"

definition insert_point_in_route :: "int \<Rightarrow> int \<Rightarrow> point \<Rightarrow> drawer \<Rightarrow> drawer" where
  "insert_point_in_route route_idx insert_idx new_point s =
     (if route_idx = - 1 then
        s\<lparr>current_route := py_insert (current_route s) insert_idx new_point\<rparr>
      else
        (if 0 \<le> route_idx \<and> route_idx < int (length (routes s))
         then s\<lparr>routes := (routes s)[nat route_idx :=
                              py_insert (routes s ! nat route_idx) insert_idx new_point]\<rparr>
         else s))"

subsection \<open>Pointer events\<close>

definition on_left_click :: "int \<Rightarrow> int \<Rightarrow> drawer \<Rightarrow> drawer" where
  "on_left_click ex ey s =
     (case find_point_at_position ex ey s of
        Some (route_idx, point_idx) \<Rightarrow>
          s\<lparr>dragging := True, drag_route_idx := Some route_idx, drag_point_idx := Some point_idx\<rparr>
      | None \<Rightarrow>
          s\<lparr>current_route := current_route s @ [(canvas_to_coord_x ex, canvas_to_coord_y ey)]\<rparr>)"

definition on_right_click :: "int \<Rightarrow> int \<Rightarrow> drawer \<Rightarrow> drawer" where
  "on_right_click ex ey s =
     (case find_point_at_position ex ey s of
        Some (route_idx, point_idx) \<Rightarrow> remove_point route_idx point_idx s
      | None \<Rightarrow>
          (case find_line_at_position ex ey s of
             Some (route_idx, point1_idx, point2_idx) \<Rightarrow>
               insert_point_in_route route_idx (point1_idx + 1)
                 (canvas_to_coord_x ex, canvas_to_coord_y ey) s
           | None \<Rightarrow> s))"

definition subscript :: "int option \<Rightarrow> py_error + int" where
  \<comment> \<open>a list subscript must be an int: \<open>xs[None]\<close> raises TypeError\<close>
  "subscript i = (case i of None \<Rightarrow> Inl TypeError | Some j \<Rightarrow> Inr j)"

definition on_left_release :: "int \<Rightarrow> int \<Rightarrow> drawer \<Rightarrow> py_error + drawer" where
  "on_left_release ex ey s =
     (if dragging s then
        let coord_x = canvas_to_coord_x ex;
            coord_y = canvas_to_coord_y ey;
            stored =
              (if drag_route_idx s = Some (- 1) then
                 (case subscript (drag_point_idx s) of Inl e \<Rightarrow> Inl e
                  | Inr p_idx \<Rightarrow>
                     (case py_setitem (current_route s) p_idx (coord_x, coord_y) of Inl e \<Rightarrow> Inl e
                      | Inr r \<Rightarrow> Inr (s\<lparr>current_route := r\<rparr>)))
               else
                 (case subscript (drag_route_idx s) of Inl e \<Rightarrow> Inl e
                  | Inr r_idx \<Rightarrow>
                     (case py_index (routes s) r_idx of Inl e \<Rightarrow> Inl e
                      | Inr k \<Rightarrow>
                         (case subscript (drag_point_idx s) of Inl e \<Rightarrow> Inl e
                          | Inr p_idx \<Rightarrow>
                             (case py_setitem (routes s ! k) p_idx (coord_x, coord_y) of Inl e \<Rightarrow> Inl e
                              | Inr r \<Rightarrow> Inr (s\<lparr>routes := (routes s)[k := r]\<rparr>))))))
        in (case stored of Inl e \<Rightarrow> Inl e
            | Inr s1 \<Rightarrow> Inr (s1\<lparr>dragging := False, drag_route_idx := None, drag_point_idx := None\<rparr>))
      else Inr s)"

subsection \<open>Event dispatch\<close>

text \<open>
  Tk reports an exception raised by a callback and goes on with the next event; a raising
  \<open>on_left_release\<close> has changed no attribute when it raises, so the drawer is as before.
\<close>

datatype event = LeftClick int int | RightClick int int | LeftRelease int int
  | NewRoute | ClearAll | UndoLastPoint

fun handle :: "event \<Rightarrow> drawer \<Rightarrow> drawer" where
  "handle (LeftClick x y) s = on_left_click x y s"
| "handle (RightClick x y) s = on_right_click x y s"
| "handle (LeftRelease x y) s = (case on_left_release x y s of Inl e \<Rightarrow> s | Inr s1 \<Rightarrow> s1)"
| "handle NewRoute s = start_new_route s"
| "handle ClearAll s = clear_all s"
| "handle UndoLastPoint s = undo_last_point s"

inductive reachable :: "drawer \<Rightarrow> bool" where
  reachable_init: "reachable init"
| reachable_step: "reachable s \<Longrightarrow> reachable (handle ev s)"

subsection \<open>Arc length\<close>

type_synonym pypoint = "pynum \<times> pynum"

definition as_pypoint :: "point \<Rightarrow> pypoint" where
  \<comment> \<open>a stored point returned as it is: a tuple of two ints\<close>
  "as_pypoint p = (PInt (fst p), PInt (snd p))"

definition seg_dist :: "point \<Rightarrow> point \<Rightarrow> pynum" where
  \<comment> \<open>\<open>math.sqrt((x2 - x1)**2 + (y2 - y1)**2)\<close>\<close>
  "seg_dist p1 p2 =
     py_sqrt (py_add (py_sq (PInt (fst p2 - fst p1))) (py_sq (PInt (snd p2 - snd p1))))"

fun length_loop :: "pynum \<Rightarrow> route \<Rightarrow> pynum" where
  \<comment> \<open>\<open>for i in range(len(route) - 1): total_length += distance\<close>\<close>
  "length_loop total_length (p1 # p2 # ps) =
     length_loop (py_add total_length (seg_dist p1 p2)) (p2 # ps)"
| "length_loop total_length ps = total_length"

definition calculate_route_length :: "route \<Rightarrow> pynum" where
  "calculate_route_length route =
     (if length route < 2 then PFloat 0 else length_loop (PFloat 0) route)"

definition calculate_euclidean_distance :: "route \<Rightarrow> pynum" where
  "calculate_euclidean_distance route =
     (if length route < 2 then PFloat 0 else seg_dist (hd route) (last route))"

fun walk :: "pynum \<Rightarrow> pynum \<Rightarrow> route \<Rightarrow> pypoint option" where
  \<comment> \<open>the loop of \<open>get_point_at_distance\<close>; \<open>None\<close> when it runs to its end\<close>
  "walk current_distance target_distance (p1 # p2 # ps) =
     (let segment_length = seg_dist p1 p2 in
      if py_le target_distance (py_add current_distance segment_length) then
        (let remaining_distance = py_sub target_distance current_distance in
         if py_eq segment_length (PInt 0) then Some (as_pypoint p1)
         else
           let ratio = py_truediv remaining_distance segment_length
           in Some (py_add (PInt (fst p1)) (py_mul ratio (PInt (fst p2 - fst p1))),
                    py_add (PInt (snd p1)) (py_mul ratio (PInt (snd p2 - snd p1)))))
      else walk (py_add current_distance segment_length) target_distance (p2 # ps))"
| "walk current_distance target_distance ps = None"

definition get_point_at_distance :: "route \<Rightarrow> pynum \<Rightarrow> pypoint" where
  "get_point_at_distance route target_distance =
     (if length route < 2 then (case route of [] \<Rightarrow> (PInt 0, PInt 0) | p # _ \<Rightarrow> as_pypoint p)
      else if py_le target_distance (PInt 0) then as_pypoint (hd route)
      else (case walk (PFloat 0) target_distance route of
              Some p \<Rightarrow> p
            | None \<Rightarrow> as_pypoint (last route)))"

definition get_middle_point :: "route \<Rightarrow> pypoint" where
  "get_middle_point route =
     (let total_length = calculate_route_length route
      in get_point_at_distance route (py_truediv total_length (PInt 2)))"

definition get_third_points :: "route \<Rightarrow> pypoint \<times> pypoint" where
  "get_third_points route =
     (let total_length = calculate_route_length route;
          point_1_3 = get_point_at_distance route (py_truediv total_length (PInt 3));
          point_2_3 = get_point_at_distance route
                        (py_truediv (py_mul (PInt 2) total_length) (PInt 3))
      in (point_1_3, point_2_3))"

subsection \<open>Feature extraction\<close>

fun str_nat :: "nat \<Rightarrow> string" where
  \<comment> \<open>\<open>str(n)\<close> for a non-negative int\<close>
  "str_nat n = (if n < 10 then [''0123456789'' ! n]
                else str_nat (n div 10) @ [''0123456789'' ! (n mod 10)])"

declare str_nat.simps [simp del]

definition feature_names :: "bool \<Rightarrow> bool \<Rightarrow> bool \<Rightarrow> string list" where
  "feature_names include_middle include_thirds include_euclidean =
     [''start_x'', ''start_y'', ''end_x'', ''end_y'', ''length'']
     @ (if include_middle then [''middle_x'', ''middle_y''] else [])
     @ (if include_thirds then [''third1_x'', ''third1_y'', ''third2_x'', ''third2_y''] else [])
     @ (if include_euclidean then [''euclidean_dist''] else [])"

definition extract_single_route_features ::
    "route \<Rightarrow> bool \<Rightarrow> bool \<Rightarrow> bool \<Rightarrow> py_error + pynum list" where
  \<comment> \<open>\<open>_extract_single_route_features\<close>; \<open>route[0]\<close> and \<open>route[-1]\<close> raise on an empty route\<close>
  "extract_single_route_features route include_middle include_thirds include_euclidean =
     (case py_getitem route 0 of Inl e \<Rightarrow> Inl e
      | Inr start_pt \<Rightarrow>
     (case py_getitem route (- 1) of Inl e \<Rightarrow> Inl e
      | Inr end_pt \<Rightarrow>
        let len = calculate_route_length route;
            fv0 = [PInt (fst start_pt), PInt (snd start_pt),
                   PInt (fst end_pt), PInt (snd end_pt), len];
            fv1 = (if include_middle
                   then fv0 @ [fst (get_middle_point route), snd (get_middle_point route)]
                   else fv0);
            fv2 = (if include_thirds
                   then fv1 @ [fst (fst (get_third_points route)), snd (fst (get_third_points route)),
                               fst (snd (get_third_points route)), snd (snd (get_third_points route))]
                   else fv1);
            fv3 = (if include_euclidean then fv2 @ [calculate_euclidean_distance route] else fv2)
        in Inr fv3))"

fun extract_loop ::
    "bool \<Rightarrow> bool \<Rightarrow> bool \<Rightarrow> nat \<Rightarrow> route list \<Rightarrow> pynum list list \<Rightarrow> string list
      \<Rightarrow> py_error + (pynum list list \<times> string list)" where
  \<comment> \<open>\<open>for i, route in enumerate(self.routes)\<close>, counting from the given index\<close>
  "extract_loop mi th eu i [] features route_labels = Inr (features, route_labels)"
| "extract_loop mi th eu i (route # rest) features route_labels =
     (if 2 \<le> length route then
        (case extract_single_route_features route mi th eu of Inl e \<Rightarrow> Inl e
         | Inr feature_vector \<Rightarrow>
             extract_loop mi th eu (Suc i) rest (features @ [feature_vector])
               (route_labels @ [''Route '' @ str_nat (i + 1)]))
      else extract_loop mi th eu (Suc i) rest features route_labels)"

definition np_array :: "pynum list list \<Rightarrow> real list list" where
  \<comment> \<open>\<open>np.array(features)\<close>: a float64 array, every int entry converted\<close>
  "np_array features = map (map to_float) features"

text \<open>
  \<open>extract_route_features\<close> is a method of the drawer: it is given the drawer and gives it
  back together with its result.  It contains no assignment to an attribute and calls no
  mutating list method on \<open>routes\<close> or \<open>current_route\<close>; the geometry helpers it calls
  receive the route as an argument and only read it.
\<close>

definition extract_route_features ::
    "bool \<Rightarrow> bool \<Rightarrow> bool \<Rightarrow> drawer
      \<Rightarrow> (py_error + (real list list \<times> string list \<times> string list)) \<times> drawer" where
  "extract_route_features include_middle include_thirds include_euclidean s =
     ((case extract_loop include_middle include_thirds include_euclidean 0 (routes s) [] [] of
         Inl e \<Rightarrow> Inl e
       | Inr (features, route_labels) \<Rightarrow>
           (case (if 2 \<le> length (current_route s) then
                    (case extract_single_route_features (current_route s)
                            include_middle include_thirds include_euclidean of
                       Inl e \<Rightarrow> Inl e
                     | Inr feature_vector \<Rightarrow>
                         Inr (features @ [feature_vector], route_labels @ [''Current Route'']))
                  else Inr (features, route_labels)) of
              Inl e \<Rightarrow> Inl e
            | Inr (features1, route_labels1) \<Rightarrow>
                Inr (np_array features1, route_labels1,
                     feature_names include_middle include_thirds include_euclidean))), s)"

subsection \<open>The object store\<close>

text \<open>
  Python lists are mutable objects held by reference: \<open>self.routes\<close> is a list object whose
  elements are references to the route lists, and a method that is handed a route is handed
  the reference.  To state which objects a method changes, the queries and the feature
  extraction are modelled a second time, statement by statement, over an explicit store: a
  heap of list objects addressed by position, and the attributes \<open>self.routes\<close> and
  \<open>self.current_route\<close> as references into it.  Tuples, numbers and strings are immutable
  values.  A program takes the store and gives back its outcome, a value or a raised error,
  together with the store it leaves.  A list element of an unexpected kind, or a reference to
  no object, which Python's object graph never holds, raises \<open>TypeError\<close> at its first use.
\<close>

type_synonym addr = nat

datatype pyval = VNum pynum | VPoint point | VRef addr | VStr string

record store =
  heap :: "pyval list list"
  self_routes :: addr
  self_current_route :: addr

type_synonym 'a prog = "store \<Rightarrow> (py_error + 'a) \<times> store"

definition ret :: "'a \<Rightarrow> 'a prog" where
  "ret x s = (Inr x, s)"

definition throw :: "py_error \<Rightarrow> 'a prog" where
  "throw e s = (Inl e, s)"

definition seq :: "'a prog \<Rightarrow> ('a \<Rightarrow> 'b prog) \<Rightarrow> 'b prog" where
  \<comment> \<open>one statement after another; an error ends the method with the store as it then is\<close>
  "seq m f s = (case m s of (Inl e, s') \<Rightarrow> (Inl e, s') | (Inr x, s') \<Rightarrow> f x s')"

definition new_list :: "pyval list \<Rightarrow> addr prog" where
  \<comment> \<open>a list display \<open>[...]\<close>: a new object\<close>
  "new_list vs s = (Inr (length (heap s)), s\<lparr>heap := heap s @ [vs]\<rparr>)"

definition read_list :: "addr \<Rightarrow> pyval list prog" where
  "read_list a s = (if a < length (heap s) then (Inr (heap s ! a), s) else (Inl TypeError, s))"

definition list_len :: "addr \<Rightarrow> nat prog" where
  \<comment> \<open>\<open>len(xs)\<close>\<close>
  "list_len a = seq (read_list a) (\<lambda>vs. ret (length vs))"

definition list_getitem :: "addr \<Rightarrow> int \<Rightarrow> pyval prog" where
  \<comment> \<open>\<open>xs[i]\<close>\<close>
  "list_getitem a i =
     seq (read_list a) (\<lambda>vs. case py_getitem vs i of Inl e \<Rightarrow> throw e | Inr v \<Rightarrow> ret v)"

definition list_extend :: "addr \<Rightarrow> pyval list \<Rightarrow> unit prog" where
  \<comment> \<open>\<open>xs.extend([...])\<close>: the object at the reference is changed in place\<close>
  "list_extend a ws s =
     (if a < length (heap s) then (Inr (), s\<lparr>heap := (heap s)[a := heap s ! a @ ws]\<rparr>)
      else (Inl TypeError, s))"

definition list_append :: "addr \<Rightarrow> pyval \<Rightarrow> unit prog" where
  \<comment> \<open>\<open>xs.append(w)\<close>\<close>
  "list_append a w = list_extend a [w]"

definition as_point :: "pyval \<Rightarrow> point prog" where
  \<comment> \<open>the unpacking \<open>x, y = v\<close> of a stored point\<close>
  "as_point v = (case v of VPoint p \<Rightarrow> ret p | _ \<Rightarrow> throw TypeError)"

definition as_ref :: "pyval \<Rightarrow> addr prog" where
  "as_ref v = (case v of VRef a \<Rightarrow> ret a | _ \<Rightarrow> throw TypeError)"

definition as_num :: "pyval \<Rightarrow> pynum prog" where
  "as_num v = (case v of VNum x \<Rightarrow> ret x | _ \<Rightarrow> throw TypeError)"

definition get_routes :: "addr prog" where
  \<comment> \<open>\<open>self.routes\<close>\<close>
  "get_routes s = (Inr (self_routes s), s)"

definition get_current_route :: "addr prog" where
  \<comment> \<open>\<open>self.current_route\<close>\<close>
  "get_current_route s = (Inr (self_current_route s), s)"

fun length_for :: "addr \<Rightarrow> nat \<Rightarrow> nat \<Rightarrow> pynum \<Rightarrow> pynum prog" where
  \<comment> \<open>\<open>for i in range(len(route) - 1)\<close> of \<open>calculate_route_length\<close>, at index \<open>i\<close> with
      \<open>k\<close> indices left\<close>
  "length_for route i 0 total_length = ret total_length"
| "length_for route i (Suc k) total_length =
     seq (list_getitem route (int i)) (\<lambda>v1. seq (as_point v1) (\<lambda>p1.
     seq (list_getitem route (int i + 1)) (\<lambda>v2. seq (as_point v2) (\<lambda>p2.
     length_for route (Suc i) k (py_add total_length (seg_dist p1 p2))))))"

definition calculate_route_length_st :: "addr \<Rightarrow> pynum prog" where
  "calculate_route_length_st route =
     seq (list_len route) (\<lambda>n.
       if n < 2 then ret (PFloat 0) else length_for route 0 (n - 1) (PFloat 0))"

definition calculate_euclidean_distance_st :: "addr \<Rightarrow> pynum prog" where
  "calculate_euclidean_distance_st route =
     seq (list_len route) (\<lambda>n.
       if n < 2 then ret (PFloat 0)
       else seq (list_getitem route 0) (\<lambda>v1. seq (as_point v1) (\<lambda>start.
            seq (list_getitem route (- 1)) (\<lambda>v2. seq (as_point v2) (\<lambda>end.
            ret (seg_dist start end))))))"

fun walk_for :: "addr \<Rightarrow> nat \<Rightarrow> nat \<Rightarrow> pynum \<Rightarrow> pynum \<Rightarrow> pypoint option prog" where
  \<comment> \<open>the loop of \<open>get_point_at_distance\<close>, at index \<open>i\<close> with \<open>k\<close> indices left\<close>
  "walk_for route i 0 current_distance target_distance = ret None"
| "walk_for route i (Suc k) current_distance target_distance =
     seq (list_getitem route (int i)) (\<lambda>v1. seq (as_point v1) (\<lambda>p1.
     seq (list_getitem route (int i + 1)) (\<lambda>v2. seq (as_point v2) (\<lambda>p2.
       let segment_length = seg_dist p1 p2 in
       if py_le target_distance (py_add current_distance segment_length) then
         (let remaining_distance = py_sub target_distance current_distance in
          if py_eq segment_length (PInt 0) then ret (Some (as_pypoint p1))
          else
            let ratio = py_truediv remaining_distance segment_length
            in ret (Some (py_add (PInt (fst p1)) (py_mul ratio (PInt (fst p2 - fst p1))),
                          py_add (PInt (snd p1)) (py_mul ratio (PInt (snd p2 - snd p1))))))
       else walk_for route (Suc i) k (py_add current_distance segment_length)
              target_distance))))"

definition point_at :: "addr \<Rightarrow> int \<Rightarrow> pypoint prog" where
  \<comment> \<open>\<open>return route[i]\<close>\<close>
  "point_at route i =
     seq (list_getitem route i) (\<lambda>v. seq (as_point v) (\<lambda>p. ret (as_pypoint p)))"

definition get_point_at_distance_st :: "addr \<Rightarrow> pynum \<Rightarrow> pypoint prog" where
  "get_point_at_distance_st route target_distance =
     seq (list_len route) (\<lambda>n.
       if n < 2 then (if n \<noteq> 0 then point_at route 0 else ret (PInt 0, PInt 0))
       else if py_le target_distance (PInt 0) then point_at route 0
       else seq (walk_for route 0 (n - 1) (PFloat 0) target_distance) (\<lambda>r.
              case r of Some p \<Rightarrow> ret p | None \<Rightarrow> point_at route (- 1)))"

definition get_middle_point_st :: "addr \<Rightarrow> pypoint prog" where
  "get_middle_point_st route =
     seq (calculate_route_length_st route) (\<lambda>total_length.
     get_point_at_distance_st route (py_truediv total_length (PInt 2)))"

definition get_third_points_st :: "addr \<Rightarrow> (pypoint \<times> pypoint) prog" where
  "get_third_points_st route =
     seq (calculate_route_length_st route) (\<lambda>total_length.
     seq (get_point_at_distance_st route (py_truediv total_length (PInt 3))) (\<lambda>point_1_3.
     seq (get_point_at_distance_st route
            (py_truediv (py_mul (PInt 2) total_length) (PInt 3))) (\<lambda>point_2_3.
     ret (point_1_3, point_2_3))))"

definition extract_single_route_features_st ::
    "addr \<Rightarrow> bool \<Rightarrow> bool \<Rightarrow> bool \<Rightarrow> addr prog" where
  \<comment> \<open>\<open>feature_vector\<close> is a new list, extended in place and returned by reference\<close>
  "extract_single_route_features_st route include_middle include_thirds include_euclidean =
     seq (list_getitem route 0) (\<lambda>v1. seq (as_point v1) (\<lambda>start_pt.
     seq (list_getitem route (- 1)) (\<lambda>v2. seq (as_point v2) (\<lambda>end_pt.
     seq (calculate_route_length_st route) (\<lambda>len.
     seq (new_list [VNum (PInt (fst start_pt)), VNum (PInt (snd start_pt)),
                    VNum (PInt (fst end_pt)), VNum (PInt (snd end_pt)), VNum len])
       (\<lambda>feature_vector.
     seq (if include_middle then
            seq (get_middle_point_st route) (\<lambda>middle.
            list_extend feature_vector [VNum (fst middle), VNum (snd middle)])
          else ret ()) (\<lambda>_.
     seq (if include_thirds then
            seq (get_third_points_st route) (\<lambda>thirds.
            list_extend feature_vector
              [VNum (fst (fst thirds)), VNum (snd (fst thirds)),
               VNum (fst (snd thirds)), VNum (snd (snd thirds))])
          else ret ()) (\<lambda>_.
     seq (if include_euclidean then
            seq (calculate_euclidean_distance_st route) (\<lambda>euclidean_dist.
            list_append feature_vector (VNum euclidean_dist))
          else ret ()) (\<lambda>_.
     ret feature_vector)))))))))"

fun extract_for ::
    "nat \<Rightarrow> addr \<Rightarrow> nat \<Rightarrow> addr \<Rightarrow> addr \<Rightarrow> bool \<Rightarrow> bool \<Rightarrow> bool \<Rightarrow> bool prog" where
  \<comment> \<open>\<open>for i, route in enumerate(self.routes)\<close>: the list iterator is at index \<open>i\<close> and reads
      the list object again at every step.  The first argument bounds the number of steps
      still taken; the result is \<open>False\<close> when the bound is reached before the iterator is
      exhausted.\<close>
  "extract_for 0 rs i features route_labels mi th eu =
     seq (list_len rs) (\<lambda>n. ret (\<not> i < n))"
| "extract_for (Suc fuel) rs i features route_labels mi th eu =
     seq (list_len rs) (\<lambda>n.
       if \<not> i < n then ret True
       else
         seq (list_getitem rs (int i)) (\<lambda>v. seq (as_ref v) (\<lambda>route.
         seq (list_len route) (\<lambda>m.
         seq (if 2 \<le> m then
                seq (extract_single_route_features_st route mi th eu) (\<lambda>feature_vector.
                seq (list_append features (VRef feature_vector)) (\<lambda>_.
                list_append route_labels (VStr (''Route '' @ str_nat (i + 1)))))
              else ret ()) (\<lambda>_.
         extract_for fuel rs (Suc i) features route_labels mi th eu)))))"

fun read_rows :: "pyval list \<Rightarrow> real list list prog" where
  \<comment> \<open>\<open>np.array(features)\<close> copies every row into a new float64 array\<close>
  "read_rows [] = ret []"
| "read_rows (v # vs) =
     seq (as_ref v) (\<lambda>r. seq (read_list r) (\<lambda>row.
     seq (read_rows vs) (\<lambda>rest.
       if \<forall>w \<in> set row. case w of VNum x \<Rightarrow> True | _ \<Rightarrow> False
       then ret (map (\<lambda>w. case w of VNum x \<Rightarrow> to_float x | _ \<Rightarrow> 0) row # rest)
       else throw TypeError)))"

definition np_array_st :: "addr \<Rightarrow> real list list prog" where
  "np_array_st features = seq (read_list features) read_rows"

definition extract_route_features_st ::
    "nat \<Rightarrow> bool \<Rightarrow> bool \<Rightarrow> bool \<Rightarrow> (real list list \<times> addr \<times> addr) option prog" where
  \<comment> \<open>the result is the array and the references to \<open>route_labels\<close> and \<open>feature_names\<close>;
      \<open>None\<close> when the step bound of the loop was reached\<close>
  "extract_route_features_st fuel include_middle include_thirds include_euclidean =
     seq (new_list []) (\<lambda>features.
     seq (new_list []) (\<lambda>route_labels.
     seq (new_list [VStr ''start_x'', VStr ''start_y'', VStr ''end_x'', VStr ''end_y'',
                    VStr ''length'']) (\<lambda>feature_names.
     seq (if include_middle
          then list_extend feature_names [VStr ''middle_x'', VStr ''middle_y'']
          else ret ()) (\<lambda>_.
     seq (if include_thirds
          then list_extend feature_names
                 [VStr ''third1_x'', VStr ''third1_y'', VStr ''third2_x'', VStr ''third2_y'']
          else ret ()) (\<lambda>_.
     seq (if include_euclidean
          then list_append feature_names (VStr ''euclidean_dist'')
          else ret ()) (\<lambda>_.
     seq get_routes (\<lambda>rs.
     seq (extract_for fuel rs 0 features route_labels
            include_middle include_thirds include_euclidean) (\<lambda>exhausted.
     if \<not> exhausted then ret None
     else
       seq get_current_route (\<lambda>current.
       seq (list_len current) (\<lambda>m.
       seq (if 2 \<le> m then
              seq (extract_single_route_features_st current
                     include_middle include_thirds include_euclidean) (\<lambda>feature_vector.
              seq (list_append features (VRef feature_vector)) (\<lambda>_.
              list_append route_labels (VStr ''Current Route'')))
            else ret ()) (\<lambda>_.
       seq (np_array_st features) (\<lambda>array.
       ret (Some (array, route_labels, feature_names))))))))))))))"

text \<open>
  The drawer a store holds: the routes and the current route read through the references.
\<close>

fun the_point :: "pyval \<Rightarrow> point option" where
  "the_point (VPoint p) = Some p"
| "the_point _ = None"

fun the_ref :: "pyval \<Rightarrow> addr option" where
  "the_ref (VRef a) = Some a"
| "the_ref _ = None"

definition load_route :: "store \<Rightarrow> addr \<Rightarrow> route option" where
  "load_route s a =
     (if a < length (heap s) then those (map the_point (heap s ! a)) else None)"

definition load_routes :: "store \<Rightarrow> route list option" where
  "load_routes s =
     (if self_routes s < length (heap s) then
        (case those (map the_ref (heap s ! self_routes s)) of
           None \<Rightarrow> None
         | Some refs \<Rightarrow> those (map (load_route s) refs))
      else None)"

definition load_drawer :: "store \<Rightarrow> drawer option" where
  \<comment> \<open>the drag state is not part of the store: it is given as idle\<close>
  "load_drawer s =
     (case (load_routes s, load_route s (self_current_route s)) of
        (Some rs, Some cr) \<Rightarrow>
          Some \<lparr>routes = rs, current_route = cr, dragging = False,
                drag_route_idx = None, drag_point_idx = None\<rparr>
      | _ \<Rightarrow> None)"

definition unchanged_except :: "addr set \<Rightarrow> store \<Rightarrow> store \<Rightarrow> bool" where
  \<comment> \<open>every object of the first store outside the given set has the same elements in the
      second, and both attributes hold the same references\<close>
  "unchanged_except W s s' \<longleftrightarrow>
     length (heap s) \<le> length (heap s')
     \<and> (\<forall>a < length (heap s). a \<notin> W \<longrightarrow> heap s' ! a = heap s ! a)
     \<and> self_routes s' = self_routes s
     \<and> self_current_route s' = self_current_route s"

definition modifies :: "addr set \<Rightarrow> 'a prog \<Rightarrow> bool" where
  \<comment> \<open>whatever the store and the outcome, the program changes no existing object outside
      the given set and rebinds no attribute\<close>
  "modifies W m \<longleftrightarrow> (\<forall>s. unchanged_except W s (snd (m s)))"

section \<open>The route store: removal, insertion, drag release\<close>

lemma length_pop_at: "i < length xs \<Longrightarrow> length (pop_at xs i) = length xs - 1"
  by (simp add: pop_at_def)

lemma nth_pop_at:
  "j < length xs - 1 \<Longrightarrow> pop_at xs i ! j = (if j < i then xs ! j else xs ! Suc j)"
  by (auto simp: pop_at_def nth_append min_def)

lemma set_pop_at: "set (pop_at xs i) \<subseteq> set xs"
  unfolding pop_at_def using set_take_subset set_drop_subset by fastforce

lemma pop_at_insert:
  "0 \<le> i \<Longrightarrow> i \<le> int (length xs) \<Longrightarrow> pop_at (py_insert xs i v) (nat i) = xs"
  by (simp add: pop_at_def py_insert_def Let_def min_def)


lemma pop_at_update_same: "pop_at (xs[k := x]) k = pop_at xs k"
  by (simp add: pop_at_def)

lemma remove_point_current:
  "0 \<le> p \<Longrightarrow> p < int (length (current_route s)) \<Longrightarrow>
   remove_point (- 1) p s = s\<lparr>current_route := pop_at (current_route s) (nat p)\<rparr>"
  by (simp add: remove_point_def)

lemma remove_point_committed:
  assumes "r \<noteq> - 1" "0 \<le> r" "r < int (length (routes s))"
    "0 \<le> p" "p < int (length (routes s ! nat r))"
  shows "remove_point r p s =
    (if pop_at (routes s ! nat r) (nat p) = [] then s\<lparr>routes := pop_at (routes s) (nat r)\<rparr>
     else s\<lparr>routes := (routes s)[nat r := pop_at (routes s ! nat r) (nat p)]\<rparr>)"
  using assms by (simp add: remove_point_def Let_def pop_at_update_same)

lemma remove_point_out_of_range:
  assumes "if r = - 1 then \<not> (0 \<le> p \<and> p < int (length (current_route s)))
     else \<not> (0 \<le> r \<and> r < int (length (routes s)) \<and> 0 \<le> p \<and> p < int (length (routes s ! nat r)))"
  shows "remove_point r p s = s"
  using assms by (auto simp: remove_point_def split: if_splits)

lemma remove_point_no_empty:
  assumes inv: "[] \<notin> set (routes s)"
  shows "[] \<notin> set (routes (remove_point r p s))"
proof (cases "r = - 1")
  case True
  then show ?thesis using inv by (simp add: remove_point_def)
next
  case False
  show ?thesis
  proof (cases "0 \<le> r \<and> r < int (length (routes s)) \<and> 0 \<le> p \<and> p < int (length (routes s ! nat r))")
    case True
    let ?r' = "pop_at (routes s ! nat r) (nat p)"
    have eq: "remove_point r p s =
      (if ?r' = [] then s\<lparr>routes := pop_at (routes s) (nat r)\<rparr>
       else s\<lparr>routes := (routes s)[nat r := ?r']\<rparr>)"
      using remove_point_committed [of r s p] False True by simp
    show ?thesis
    proof (cases "?r' = []")
      case True
      then show ?thesis using eq inv set_pop_at [of "routes s" "nat r"] by auto
    next
      case False
      have "set ((routes s)[nat r := ?r']) \<subseteq> insert ?r' (set (routes s))"
        by (rule set_update_subset_insert)
      then show ?thesis using eq inv False by auto
    qed
  next
    case out: False
    then show ?thesis using inv remove_point_out_of_range [of r p s] False by simp
  qed
qed

lemma length_py_insert: "length (py_insert xs i v) = Suc (length xs)"
  unfolding py_insert_def Let_def by (simp; linarith)

lemma insert_then_remove_aux:
  assumes inv: "[] \<notin> set (routes s)"
    and ref: "r = - 1 \<or> (0 \<le> r \<and> r < int (length (routes s)))"
    and idx: "0 \<le> i" "i \<le> int (length (if r = - 1 then current_route s else routes s ! nat r))"
  shows "remove_point r i (insert_point_in_route r i p s) = s"
proof (cases "r = - 1")
  case True
  have len: "int (length (py_insert (current_route s) i p)) = int (length (current_route s)) + 1"
    by (simp add: length_py_insert)
  show ?thesis
    using True idx len pop_at_insert [of i "current_route s" p]
    by (simp add: insert_point_in_route_def remove_point_def)
next
  case False
  let ?k = "nat r"
  let ?rt = "routes s ! ?k"
  from False ref have r: "0 \<le> r" "r < int (length (routes s))" by auto
  then have k: "?k < length (routes s)" by simp
  have idx': "i \<le> int (length ?rt)" using idx False by simp
  have len: "int (length (py_insert ?rt i p)) = int (length ?rt) + 1"
    by (simp add: length_py_insert)
  have ne: "?rt \<noteq> []" using inv k nth_mem by metis
  have pop: "pop_at (py_insert ?rt i p) (nat i) = ?rt"
    using pop_at_insert [of i ?rt p] idx idx' by simp
  let ?s1 = "insert_point_in_route r i p s"
  have s1: "?s1 = s\<lparr>routes := (routes s)[?k := py_insert ?rt i p]\<rparr>"
    using False r by (simp add: insert_point_in_route_def)
  have "remove_point r i ?s1 = ?s1\<lparr>routes := (routes ?s1)[?k := ?rt]\<rparr>"
    using remove_point_committed [of r ?s1 i] False r k idx len pop ne
    by (simp add: s1)
  then show ?thesis using k by (simp add: s1)
qed


lemma no_empty_update: "[] \<notin> set xs \<Longrightarrow> x \<noteq> [] \<Longrightarrow> [] \<notin> set (xs[k := x])"
  using set_update_subset_insert [of xs k x] by blast

lemma py_insert_not_Nil: "py_insert xs i v \<noteq> []"
  using length_py_insert [of xs i v] by auto

lemma insert_point_no_empty:
  assumes inv: "[] \<notin> set (routes s)"
  shows "[] \<notin> set (routes (insert_point_in_route r i p s))"
  using inv by (simp add: insert_point_in_route_def no_empty_update py_insert_not_Nil)

lemma py_index_less: "py_index xs i = Inr k \<Longrightarrow> k < length xs"
  by (auto simp: py_index_def Let_def split: if_splits)

lemma on_left_release_routes:
  assumes rel: "on_left_release ex ey s = Inr s1"
  shows "routes s1 = routes s \<or>
    (\<exists>k j v. k < length (routes s) \<and> routes s1 = (routes s)[k := (routes s ! k)[j := v]])"
proof (cases "dragging s")
  case False
  then show ?thesis using rel by (simp add: on_left_release_def)
next
  case drag: True
  show ?thesis
  proof (cases "drag_route_idx s = Some (- 1)")
    case True
    then show ?thesis using rel drag
      by (auto simp: on_left_release_def Let_def split: sum.splits)
  next
    case False
    then obtain r_idx k p_idx r where
      k: "py_index (routes s) r_idx = Inr k"
      and r: "py_setitem (routes s ! k) p_idx (canvas_to_coord_x ex, canvas_to_coord_y ey) = Inr r"
      and s1: "routes s1 = (routes s)[k := r]"
      using rel drag
      by (auto simp: on_left_release_def Let_def split: sum.splits)
    from r obtain j where "r = (routes s ! k)[j := (canvas_to_coord_x ex, canvas_to_coord_y ey)]"
      by (auto simp: py_setitem_def split: sum.splits)
    then show ?thesis using s1 py_index_less [OF k] by blast
  qed
qed

lemma on_left_release_no_empty:
  assumes inv: "[] \<notin> set (routes s)" and rel: "on_left_release ex ey s = Inr s1"
  shows "[] \<notin> set (routes s1)"
proof -
  have upd: "[] \<notin> set ((routes s)[k := (routes s ! k)[j := v]])" if "k < length (routes s)" for k j v
  proof -
    have "routes s ! k \<noteq> []" using inv that nth_mem by metis
    then have "(routes s ! k)[j := v] \<noteq> []" by simp
    then show ?thesis using inv by (rule no_empty_update [rotated])
  qed
  from on_left_release_routes [OF rel] show ?thesis
    using inv upd by auto
qed

lemma handle_no_empty:
  assumes inv: "[] \<notin> set (routes s)"
  shows "[] \<notin> set (routes (handle ev s))"
proof (cases ev)
  case (LeftClick x y)
  then show ?thesis using inv by (simp add: on_left_click_def split: option.splits)
next
  case (RightClick x y)
  then show ?thesis
    using inv remove_point_no_empty insert_point_no_empty
    by (simp add: on_right_click_def split: option.splits)
next
  case (LeftRelease x y)
  then show ?thesis
    using inv on_left_release_no_empty by (simp split: sum.splits)
next
  case NewRoute
  then show ?thesis using inv by (simp add: start_new_route_def Let_def)
next
  case ClearAll
  then show ?thesis by (simp add: clear_all_def)
next
  case UndoLastPoint
  then show ?thesis using inv by (simp add: undo_last_point_def)
qed

lemma reachable_no_empty: "reachable s \<Longrightarrow> [] \<notin> set (routes s)"
  by (induction rule: reachable.induct) (simp_all add: init_def handle_no_empty)

lemma rhe_of_int [simp]: "rhe (of_int n) = n"
  by (simp add: rhe_def)

lemma rhe_zero [simp]: "rhe 0 = 0"
  using rhe_of_int [of 0] by simp

lemma fl_zero [simp]: "fl 0 = 0"
  by (simp add: fl_def)

lemma canvas_to_coord_zero: "canvas_to_coord_x 0 = 0" "canvas_to_coord_y 0 = 0"
  by (simp_all add: canvas_to_coord_x_def canvas_to_coord_y_def origin_x_def origin_y_def)

lemma point_hit_origin: "point_hit 0 0 (0, 0)"
  by (simp add: point_hit_def coord_to_canvas_x_def coord_to_canvas_y_def origin_x_def
      origin_y_def py_sqrt_def py_le_def click_tolerance_def)

lemma press_twice:
  "on_left_click 0 0 (on_left_click 0 0 init) =
     \<lparr>routes = [], current_route = [(0, 0)], dragging = True,
      drag_route_idx = Some (- 1), drag_point_idx = Some 0\<rparr>"
  by (simp add: on_left_click_def find_point_at_position_def init_def canvas_to_coord_zero
      point_hit_origin)

text \<open>
  C1.  Committing a drag is not a silent no-op on a reference that is out of range.  Press on
  an empty canvas (a point is added), press on that point (a drag of point 0 of the current
  route starts), right-click the point (it is removed, the drag target is now stale), release:
  \<open>self.current_route[0] = ...\<close> raises IndexError.
\<close>

theorem on_left_release_stale_target:
  "on_left_release 0 0 (on_right_click 0 0 (on_left_click 0 0 (on_left_click 0 0 init)))
     = Inl IndexError"
  by (simp add: press_twice on_right_click_def find_point_at_position_def point_hit_origin
      remove_point_def pop_at_def on_left_release_def subscript_def py_setitem_def py_index_def)

lemma on_left_release_current:
  assumes "dragging s" "drag_route_idx s = Some (- 1)" "drag_point_idx s = Some p"
  shows "on_left_release ex ey s =
    (if 0 \<le> p \<and> p < int (length (current_route s)) then
       Inr (s\<lparr>current_route := (current_route s)[nat p := (canvas_to_coord_x ex, canvas_to_coord_y ey)],
              dragging := False, drag_route_idx := None, drag_point_idx := None\<rparr>)
     else if - int (length (current_route s)) \<le> p \<and> p < 0 then
       Inr (s\<lparr>current_route := (current_route s)[nat (p + int (length (current_route s))) :=
                 (canvas_to_coord_x ex, canvas_to_coord_y ey)],
              dragging := False, drag_route_idx := None, drag_point_idx := None\<rparr>)
     else Inl IndexError)"
  using assms
  by (auto simp: on_left_release_def subscript_def py_setitem_def py_index_def Let_def)

lemma pop_at_Nil_iff: "i < length xs \<Longrightarrow> pop_at xs i = [] \<longleftrightarrow> length xs = 1"
  by (cases xs) (auto simp: pop_at_def)

text \<open>
  C2.  \<open>remove_point\<close>: an index in range of the current route deletes that point and
  leaves \<open>routes\<close> alone (the current route may become empty, it is never deleted); an index
  in range of a committed route deletes that point, and deletes the route when it was its only
  point, so that the routes after it move down by one; any other reference changes nothing;
  a store without empty committed routes stays so.
\<close>

theorem remove_point_spec:
  "(0 \<le> p \<and> p < int (length (current_route s)) \<longrightarrow>
      remove_point (- 1) p s = s\<lparr>current_route := pop_at (current_route s) (nat p)\<rparr>)
   \<and> (r \<noteq> - 1 \<and> 0 \<le> r \<and> r < int (length (routes s))
        \<and> 0 \<le> p \<and> p < int (length (routes s ! nat r)) \<longrightarrow>
      remove_point r p s =
        (if length (routes s ! nat r) = 1 then s\<lparr>routes := pop_at (routes s) (nat r)\<rparr>
         else s\<lparr>routes := (routes s)[nat r := pop_at (routes s ! nat r) (nat p)]\<rparr>))
   \<and> (nat r < length (routes s) \<longrightarrow>
      length (pop_at (routes s) (nat r)) = length (routes s) - 1
      \<and> (\<forall>j < length (routes s) - 1.
            pop_at (routes s) (nat r) ! j = routes s ! (if j < nat r then j else Suc j)))
   \<and> ((if r = - 1 then \<not> (0 \<le> p \<and> p < int (length (current_route s)))
        else \<not> (0 \<le> r \<and> r < int (length (routes s))
                 \<and> 0 \<le> p \<and> p < int (length (routes s ! nat r)))) \<longrightarrow>
      remove_point r p s = s)
   \<and> ([] \<notin> set (routes s) \<longrightarrow> [] \<notin> set (routes (remove_point r p s)))"
proof (intro conjI impI)
  assume "0 \<le> p \<and> p < int (length (current_route s))"
  then show "remove_point (- 1) p s = s\<lparr>current_route := pop_at (current_route s) (nat p)\<rparr>"
    by (simp add: remove_point_current)
next
  assume a: "r \<noteq> - 1 \<and> 0 \<le> r \<and> r < int (length (routes s))
        \<and> 0 \<le> p \<and> p < int (length (routes s ! nat r))"
  then have "nat p < length (routes s ! nat r)" by (simp add: nat_less_iff)
  then have "pop_at (routes s ! nat r) (nat p) = [] \<longleftrightarrow> length (routes s ! nat r) = 1"
    by (rule pop_at_Nil_iff)
  then show "remove_point r p s =
        (if length (routes s ! nat r) = 1 then s\<lparr>routes := pop_at (routes s) (nat r)\<rparr>
         else s\<lparr>routes := (routes s)[nat r := pop_at (routes s ! nat r) (nat p)]\<rparr>)"
    using remove_point_committed [of r s p] a by simp
next
  assume "nat r < length (routes s)"
  then show "length (pop_at (routes s) (nat r)) = length (routes s) - 1"
    by (rule length_pop_at)
next
  show "\<forall>j < length (routes s) - 1.
            pop_at (routes s) (nat r) ! j = routes s ! (if j < nat r then j else Suc j)"
    by (simp add: nth_pop_at)
next
  assume "if r = - 1 then \<not> (0 \<le> p \<and> p < int (length (current_route s)))
        else \<not> (0 \<le> r \<and> r < int (length (routes s))
                 \<and> 0 \<le> p \<and> p < int (length (routes s ! nat r)))"
  then show "remove_point r p s = s" by (rule remove_point_out_of_range)
next
  assume "[] \<notin> set (routes s)"
  then show "[] \<notin> set (routes (remove_point r p s))" by (rule remove_point_no_empty)
qed

theorem remove_point_spec_witness:
  "remove_point (- 1) 0 \<lparr>routes = [[(0, 0)], [(1, 1), (2, 2)]], current_route = [(5, 5)],
        dragging = False, drag_route_idx = None, drag_point_idx = None\<rparr>
     = \<lparr>routes = [[(0, 0)], [(1, 1), (2, 2)]], current_route = [],
        dragging = False, drag_route_idx = None, drag_point_idx = None\<rparr>
   \<and> remove_point 0 0 \<lparr>routes = [[(0, 0)], [(1, 1), (2, 2)]], current_route = [(5, 5)],
        dragging = False, drag_route_idx = None, drag_point_idx = None\<rparr>
     = \<lparr>routes = [[(1, 1), (2, 2)]], current_route = [(5, 5)],
        dragging = False, drag_route_idx = None, drag_point_idx = None\<rparr>
   \<and> remove_point 1 1 \<lparr>routes = [[(0, 0)], [(1, 1), (2, 2)]], current_route = [(5, 5)],
        dragging = False, drag_route_idx = None, drag_point_idx = None\<rparr>
     = \<lparr>routes = [[(0, 0)], [(1, 1)]], current_route = [(5, 5)],
        dragging = False, drag_route_idx = None, drag_point_idx = None\<rparr>
   \<and> remove_point 1 2 \<lparr>routes = [[(0, 0)], [(1, 1), (2, 2)]], current_route = [(5, 5)],
        dragging = False, drag_route_idx = None, drag_point_idx = None\<rparr>
     = \<lparr>routes = [[(0, 0)], [(1, 1), (2, 2)]], current_route = [(5, 5)],
        dragging = False, drag_route_idx = None, drag_point_idx = None\<rparr>"
  using
    remove_point_spec [where p = 0 and r = 0 and s = "\<lparr>routes = [[(0, 0)], [(1, 1), (2, 2)]],
      current_route = [(5, 5)], dragging = False, drag_route_idx = None, drag_point_idx = None\<rparr>"]
    remove_point_spec [where p = 1 and r = 1 and s = "\<lparr>routes = [[(0, 0)], [(1, 1), (2, 2)]],
      current_route = [(5, 5)], dragging = False, drag_route_idx = None, drag_point_idx = None\<rparr>"]
    remove_point_spec [where p = 2 and r = 1 and s = "\<lparr>routes = [[(0, 0)], [(1, 1), (2, 2)]],
      current_route = [(5, 5)], dragging = False, drag_route_idx = None, drag_point_idx = None\<rparr>"]
  by (simp add: pop_at_def)

text \<open>
  C8.  In a store without empty committed routes (every store the drawer reaches, see
  \<open>reachable_no_empty\<close>), inserting a point at an index \<open>0..len\<close> of the current route or
  of a committed route and removing the point at that index gives back the drawer as it was:
  the route, every other route and the drag state.
\<close>

theorem insert_then_remove:
  assumes "[] \<notin> set (routes s)"
    and "r = - 1 \<or> (0 \<le> r \<and> r < int (length (routes s)))"
    and "0 \<le> i"
    and "i \<le> int (length (if r = - 1 then current_route s else routes s ! nat r))"
  shows "remove_point r i (insert_point_in_route r i p s) = s"
  using assms by (rule insert_then_remove_aux)

theorem insert_then_remove_witness:
  "remove_point 1 1 (insert_point_in_route 1 1 (9, 9)
      \<lparr>routes = [[(0, 0)], [(1, 1), (2, 2)]], current_route = [(5, 5)],
       dragging = False, drag_route_idx = None, drag_point_idx = None\<rparr>)
    = \<lparr>routes = [[(0, 0)], [(1, 1), (2, 2)]], current_route = [(5, 5)],
       dragging = False, drag_route_idx = None, drag_point_idx = None\<rparr>
   \<and> insert_point_in_route 1 1 (9, 9)
      \<lparr>routes = [[(0, 0)], [(1, 1), (2, 2)]], current_route = [(5, 5)],
       dragging = False, drag_route_idx = None, drag_point_idx = None\<rparr>
    = \<lparr>routes = [[(0, 0)], [(1, 1), (9, 9), (2, 2)]], current_route = [(5, 5)],
       dragging = False, drag_route_idx = None, drag_point_idx = None\<rparr>"
  using insert_then_remove [where r = 1 and i = 1 and p = "(9, 9)" and
      s = "\<lparr>routes = [[(0, 0)], [(1, 1), (2, 2)]], current_route = [(5, 5)],
       dragging = False, drag_route_idx = None, drag_point_idx = None\<rparr>"]
  by (simp add: insert_point_in_route_def py_insert_def)

section \<open>Rounding to binary64\<close>

lemma rhe_bounds: "x - 1/2 \<le> of_int (rhe x)" "of_int (rhe x) \<le> x + 1/2"
  unfolding rhe_def Let_def by (auto; linarith)+

lemma rhe_minus: "rhe (- x) = - rhe x"
proof (cases "x = of_int \<lfloor>x\<rfloor>")
  case True
  then obtain n where "x = of_int n" ..
  then have "- x = of_int (- n)" by simp
  then show ?thesis using \<open>x = of_int n\<close> rhe_of_int by metis
next
  case False
  then have fl: "\<lfloor>- x\<rfloor> = - \<lfloor>x\<rfloor> - 1"
    by (metis ceiling_altdef ceiling_def minus_minus diff_minus_eq_add add_diff_cancel
        Ints_of_int of_int_floor_cancel floor_of_int minus_add_distrib uminus_add_conv_diff)
  show ?thesis
    unfolding rhe_def Let_def fl by (auto; linarith?)
qed

lemma rhe_mono: "x \<le> y \<Longrightarrow> rhe x \<le> rhe y"
proof -
  assume le: "x \<le> y"
  have fle: "\<lfloor>x\<rfloor> \<le> \<lfloor>y\<rfloor>" using le by (rule floor_mono)
  show ?thesis
  proof (cases "\<lfloor>x\<rfloor> = \<lfloor>y\<rfloor>")
    case True
    then show ?thesis using le unfolding rhe_def Let_def by (auto; linarith?)
  next
    case False
    then have "\<lfloor>x\<rfloor> + 1 \<le> \<lfloor>y\<rfloor>" using fle by linarith
    moreover have "rhe x \<le> \<lfloor>x\<rfloor> + 1" unfolding rhe_def Let_def by auto
    moreover have "\<lfloor>y\<rfloor> \<le> rhe y" unfolding rhe_def Let_def by auto
    ultimately show ?thesis by linarith
  qed
qed

lemma powr_powi: "2 powr (real_of_int e) = (2::real) powi e"
  by (simp add: powr_real_of_int')

lemma powr_powi_Suc: "2 powr (real_of_int e + 1) = (2::real) powi (e + 1)"
  using powr_powi [of "e + 1"] by simp

lemma binade:
  assumes "0 < x"
  shows "2 powi \<lfloor>log 2 x\<rfloor> \<le> x" "x < 2 powi (\<lfloor>log 2 x\<rfloor> + 1)"
proof -
  have "2 powr (of_int \<lfloor>log 2 x\<rfloor>) \<le> x \<and> x < 2 powr (of_int \<lfloor>log 2 x\<rfloor> + 1)"
    using floor_log_eq_powr_iff [of x 2 "\<lfloor>log 2 x\<rfloor>"] assms by simp
  then show "2 powi \<lfloor>log 2 x\<rfloor> \<le> x" "x < 2 powi (\<lfloor>log 2 x\<rfloor> + 1)"
    by (simp_all only: powr_powi powr_powi_Suc)
qed

lemma floor_log2_eq:
  assumes "2 powi E \<le> x" "x < 2 powi (E + 1)"
  shows "\<lfloor>log 2 x\<rfloor> = E"
proof -
  have "0 < (2::real) powi E" by simp
  then have pos: "0 < x" using assms(1) by linarith
  have "2 powr (of_int E) \<le> x \<and> x < 2 powr (of_int E + 1)"
    using assms by (simp only: powr_powi powr_powi_Suc)
  then show ?thesis using floor_log_eq_powr_iff [of x 2 E] pos by simp
qed


lemma rhe_near: "\<bar>z - of_int m\<bar> < 1/2 \<Longrightarrow> rhe z = m"
proof -
  assume a: "\<bar>z - of_int m\<bar> < 1/2"
  show ?thesis
  proof (cases "of_int m \<le> z")
    case True
    have f: "\<lfloor>z\<rfloor> = m"
    proof (rule floor_unique)
      show "of_int m \<le> z" by (rule True)
      show "z < of_int m + 1" using a by (simp add: abs_if split: if_splits)
    qed
    have "z - of_int m < 1/2" using a True by (simp add: abs_if split: if_splits)
    then show ?thesis by (simp add: rhe_def f)
  next
    case False
    have f: "\<lfloor>z\<rfloor> = m - 1"
    proof (rule floor_unique)
      show "of_int (m - 1) \<le> z" using a False by (simp add: abs_if split: if_splits)
      show "z < of_int (m - 1) + 1" using False by simp
    qed
    have "1/2 < z - of_int (m - 1)" using a False by (simp add: abs_if split: if_splits)
    then show ?thesis by (simp add: rhe_def f)
  qed
qed

lemma rhe_tie_even: "z = of_int m + 1/2 \<Longrightarrow> even m \<Longrightarrow> rhe z = m"
proof -
  assume z: "z = of_int m + 1/2" and ev: "even m"
  have "\<lfloor>z\<rfloor> = m" unfolding z by linarith
  then show ?thesis using ev unfolding rhe_def Let_def by (simp add: z)
qed

lemma fl_binade:
  assumes "2 powi E \<le> \<bar>x\<bar>" "\<bar>x\<bar> < 2 powi (E + 1)"
  shows "fl x = of_int (rhe (x / 2 powi (E - 52))) * 2 powi (E - 52)"
proof -
  have "0 < (2::real) powi E" by simp
  then have "0 < \<bar>x\<bar>" using assms(1) by linarith
  then have "x \<noteq> 0" by simp
  moreover have "\<lfloor>log 2 \<bar>x\<bar>\<rfloor> = E" using assms by (rule floor_log2_eq)
  ultimately show ?thesis by (simp add: fl_def Let_def)
qed

lemma fl_minus: "fl (- x) = - fl x"
  by (simp add: fl_def rhe_minus Let_def)

lemma pow2_split: "(2::real) powi E = 2 ^ 52 * 2 powi (E - 52)"
  using power_int_add [of "2::real" 52 "E - 52"] by simp

lemma pow2_split': "(2::real) powi (E + 1) = 2 ^ 53 * 2 powi (E - 52)"
proof -
  have "(2::real) powi (E + 1) = 2 powi (53 + (E - 52))"
    by (rule arg_cong [where f = "\<lambda>n. 2 powi n"]) simp
  also have "\<dots> = 2 powi 53 * 2 powi (E - 52)" by (rule power_int_add) simp
  finally show ?thesis by simp
qed

lemma rhe_ge_int: "of_int n \<le> z \<Longrightarrow> n \<le> rhe z"
  using rhe_mono [of "of_int n" z] by simp

lemma rhe_le_int: "z \<le> of_int n \<Longrightarrow> rhe z \<le> n"
  using rhe_mono [of z "of_int n"] by simp

lemma fl_pos_bounds:
  assumes "2 powi E \<le> x" "x < 2 powi (E + 1)"
  shows "2 powi E \<le> fl x" "fl x \<le> 2 powi (E + 1)"
proof -
  define p where "p = (2::real) powi (E - 52)"
  define k where "k = rhe (x / p)"
  have p: "0 < p" by (simp add: p_def)
  have lo_eq: "2 ^ 52 * p = 2 powi E" unfolding p_def by (rule pow2_split [symmetric])
  have hi_eq: "2 ^ 53 * p = 2 powi (E + 1)" unfolding p_def by (rule pow2_split' [symmetric])
  have "0 < (2::real) powi E" by simp
  then have x: "0 < x" using assms(1) by linarith
  have fx: "fl x = of_int k * p"
    using fl_binade [of E x] assms x by (simp add: p_def k_def)
  have "2 ^ 52 * p \<le> x" using assms(1) lo_eq by simp
  then have "2 ^ 52 \<le> x / p" using p by (simp only: pos_le_divide_eq)
  then have "of_int (2 ^ 52) \<le> x / p" by simp
  then have "2 ^ 52 \<le> k" unfolding k_def by (rule rhe_ge_int)
  then have "real_of_int (2 ^ 52) \<le> of_int k" by (simp only: of_int_le_iff)
  then have lo: "2 ^ 52 \<le> real_of_int k" by simp
  have "x \<le> 2 ^ 53 * p" using assms(2) hi_eq by simp
  then have "x / p \<le> 2 ^ 53" using p by (simp only: pos_divide_le_eq)
  then have "x / p \<le> of_int (2 ^ 53)" by simp
  then have "k \<le> 2 ^ 53" unfolding k_def by (rule rhe_le_int)
  then have "real_of_int k \<le> of_int (2 ^ 53)" by (simp only: of_int_le_iff)
  then have hi: "real_of_int k \<le> 2 ^ 53" by simp
  have "2 ^ 52 * p \<le> real_of_int k * p" using lo p by (simp only: mult_le_cancel_right_pos)
  then show "2 powi E \<le> fl x" unfolding fx lo_eq .
  have "real_of_int k * p \<le> 2 ^ 53 * p" using hi p by (simp only: mult_le_cancel_right_pos)
  then show "fl x \<le> 2 powi (E + 1)" unfolding fx hi_eq .
qed

lemma fl_mono_pos:
  assumes "0 < x" "x \<le> y"
  shows "fl x \<le> fl y"
proof -
  let ?Ex = "\<lfloor>log 2 x\<rfloor>" and ?Ey = "\<lfloor>log 2 y\<rfloor>"
  have y: "0 < y" using assms by linarith
  have bx: "2 powi ?Ex \<le> x" "x < 2 powi (?Ex + 1)" using binade [OF assms(1)] by auto
  have bye: "2 powi ?Ey \<le> y" "y < 2 powi (?Ey + 1)" using binade [OF y] by auto
  have "log 2 x \<le> log 2 y" using assms y by simp
  then have le: "?Ex \<le> ?Ey" by (rule floor_mono)
  show ?thesis
  proof (cases "?Ex = ?Ey")
    case True
    let ?p = "(2::real) powi (?Ex - 52)"
    have p: "0 < ?p" by simp
    have fx: "fl x = of_int (rhe (x / ?p)) * ?p"
      using fl_binade [of ?Ex x] bx assms(1) by simp
    have fy: "fl y = of_int (rhe (y / ?p)) * ?p"
      using fl_binade [of ?Ey y] bye y True by simp
    have "x / ?p \<le> y / ?p" using assms(2) p by (simp add: divide_right_mono)
    then have "rhe (x / ?p) \<le> rhe (y / ?p)" by (rule rhe_mono)
    then show ?thesis unfolding fx fy using p by simp
  next
    case False
    then have "?Ex + 1 \<le> ?Ey" using le by linarith
    then have "(2::real) powi (?Ex + 1) \<le> 2 powi ?Ey"
      by (simp add: power_int_increasing)
    moreover have "fl x \<le> 2 powi (?Ex + 1)" using fl_pos_bounds(2) [OF bx] .
    moreover have "2 powi ?Ey \<le> fl y" using fl_pos_bounds(1) [OF bye] .
    ultimately show ?thesis by linarith
  qed
qed

lemma fl_pos: "0 < x \<Longrightarrow> 0 < fl x"
proof -
  assume x: "0 < x"
  have "0 < (2::real) powi \<lfloor>log 2 x\<rfloor>" by simp
  also have "\<dots> \<le> fl x" using fl_pos_bounds(1) [OF binade [OF x]] .
  finally show ?thesis .
qed

lemma fl_nonneg: "0 \<le> x \<Longrightarrow> 0 \<le> fl x"
  using fl_pos [of x] by (cases "x = 0") (auto simp: less_eq_real_def)

lemma fl_mono: "x \<le> y \<Longrightarrow> fl x \<le> fl y"
proof -
  assume le: "x \<le> y"
  consider "0 < x" | "x \<le> 0" "0 \<le> y" | "y < 0" by linarith
  then show ?thesis
  proof cases
    case 1
    then show ?thesis using le by (rule fl_mono_pos)
  next
    case 2
    have "0 \<le> fl (- x)" using 2(1) by (intro fl_nonneg) simp
    then have "fl x \<le> 0" by (simp add: fl_minus)
    moreover have "0 \<le> fl y" using 2(2) by (rule fl_nonneg)
    ultimately show ?thesis by linarith
  next
    case 3
    then have "0 < - y" "- y \<le> - x" using le by auto
    then have "fl (- y) \<le> fl (- x)" by (rule fl_mono_pos)
    then show ?thesis by (simp add: fl_minus)
  qed
qed

section \<open>Feature extraction\<close>

lemma py_getitem_first: "route \<noteq> [] \<Longrightarrow> py_getitem route 0 = Inr (hd route)"
  by (cases route) (simp_all add: py_getitem_def py_index_def)

lemma py_getitem_last: "route \<noteq> [] \<Longrightarrow> py_getitem route (- 1) = Inr (last route)"
  by (cases route rule: rev_cases) (simp_all add: py_getitem_def py_index_def nth_append)

lemma extract_single_returns:
  assumes "route \<noteq> []"
  shows "\<exists>fv. extract_single_route_features route mi th eu = Inr fv
            \<and> length fv = length (feature_names mi th eu)"
  using assms
  by (simp add: extract_single_route_features_def py_getitem_first py_getitem_last Let_def
      feature_names_def)

lemma extract_loop_spec:
  "\<exists>rows. extract_loop mi th eu i rs F L =
      Inr (F @ rows,
           L @ map (\<lambda>(j, r). ''Route '' @ str_nat (j + 1))
                 (filter (\<lambda>(j, r). 2 \<le> length r) (enumerate i rs)))
    \<and> map Inr rows = map (\<lambda>r. extract_single_route_features r mi th eu)
                        (filter (\<lambda>r. 2 \<le> length r) rs)"
proof (induction rs arbitrary: i F L)
  case Nil
  then show ?case by simp
next
  case (Cons r rs)
  show ?case
  proof (cases "2 \<le> length r")
    case False
    then show ?thesis using Cons.IH [of "Suc i" F L] by simp
  next
    case True
    then have "r \<noteq> []" by auto
    then obtain fv where fv: "extract_single_route_features r mi th eu = Inr fv"
      using extract_single_returns by blast
    obtain rows where
      "extract_loop mi th eu (Suc i) rs (F @ [fv]) (L @ [''Route '' @ str_nat (i + 1)]) =
        Inr ((F @ [fv]) @ rows,
             (L @ [''Route '' @ str_nat (i + 1)]) @ map (\<lambda>(j, r). ''Route '' @ str_nat (j + 1))
                 (filter (\<lambda>(j, r). 2 \<le> length r) (enumerate (Suc i) rs)))"
      and "map Inr rows = map (\<lambda>r. extract_single_route_features r mi th eu)
                        (filter (\<lambda>r. 2 \<le> length r) rs)"
      using Cons.IH [of "Suc i" "F @ [fv]" "L @ [''Route '' @ str_nat (i + 1)]"] by blast
    then show ?thesis using True fv by (intro exI [of _ "fv # rows"]) simp
  qed
qed

lemma extract_route_features_spec:
  "\<exists>rows.
     fst (extract_route_features mi th eu s) =
       Inr (np_array rows,
            map (\<lambda>(j, r). ''Route '' @ str_nat (j + 1))
               (filter (\<lambda>(j, r). 2 \<le> length r) (enumerate 0 (routes s)))
            @ (if 2 \<le> length (current_route s) then [''Current Route''] else []),
            feature_names mi th eu)
     \<and> map Inr rows = map (\<lambda>r. extract_single_route_features r mi th eu)
          (filter (\<lambda>r. 2 \<le> length r) (routes s)
           @ (if 2 \<le> length (current_route s) then [current_route s] else []))"
proof -
  obtain rows where
    loop: "extract_loop mi th eu 0 (routes s) [] [] =
      Inr (rows, map (\<lambda>(j, r). ''Route '' @ str_nat (j + 1))
                 (filter (\<lambda>(j, r). 2 \<le> length r) (enumerate 0 (routes s))))"
    and rows: "map Inr rows = map (\<lambda>r. extract_single_route_features r mi th eu)
                        (filter (\<lambda>r. 2 \<le> length r) (routes s))"
    using extract_loop_spec [of mi th eu 0 "routes s" "[]" "[]"] by auto
  show ?thesis
  proof (cases "2 \<le> length (current_route s)")
    case False
    then show ?thesis using loop rows
      by (intro exI [of _ rows]) (simp add: extract_route_features_def)
  next
    case True
    then have "current_route s \<noteq> []" by auto
    then obtain fv where fv: "extract_single_route_features (current_route s) mi th eu = Inr fv"
      using extract_single_returns by blast
    show ?thesis using True loop rows fv
      by (intro exI [of _ "rows @ [fv]"]) (simp add: extract_route_features_def)
  qed
qed


text \<open>
  C7.  Feature extraction never raises.  Its matrix has one row per qualifying route (a route
  of at least two points): the qualifying committed routes in store order, then the current
  route if it qualifies; each row is what \<open>_extract_single_route_features\<close> returns for that
  route, converted to float64, and is as long as the list of feature names.  The label of a
  committed route is \<open>Route\<close> followed by its 1-based position in \<open>routes\<close>, the label of the
  current route is \<open>Current Route\<close>.  With no qualifying route the matrix and the label list
  are empty.
\<close>

theorem extract_route_features_rows:
  "\<exists>rows.
     fst (extract_route_features mi th eu s) =
       Inr (np_array rows,
            map (\<lambda>(j, r). ''Route '' @ str_nat (j + 1))
               (filter (\<lambda>(j, r). 2 \<le> length r) (enumerate 0 (routes s)))
            @ (if 2 \<le> length (current_route s) then [''Current Route''] else []),
            feature_names mi th eu)
     \<and> map Inr rows = map (\<lambda>r. extract_single_route_features r mi th eu)
          (filter (\<lambda>r. 2 \<le> length r) (routes s)
           @ (if 2 \<le> length (current_route s) then [current_route s] else []))
     \<and> length (np_array rows) =
          length (filter (\<lambda>r. 2 \<le> length r) (routes s))
          + (if 2 \<le> length (current_route s) then 1 else 0)
     \<and> (\<forall>row \<in> set (np_array rows). length row = length (feature_names mi th eu))
     \<and> (filter (\<lambda>r. 2 \<le> length r) (routes s) = [] \<and> \<not> 2 \<le> length (current_route s) \<longrightarrow>
          fst (extract_route_features mi th eu s) = Inr ([], [], feature_names mi th eu))"
proof -
  define qual where "qual = filter (\<lambda>r. 2 \<le> length r) (routes s)
           @ (if 2 \<le> length (current_route s) then [current_route s] else [])"
  obtain rows where
    res: "fst (extract_route_features mi th eu s) =
       Inr (np_array rows,
            map (\<lambda>(j, r). ''Route '' @ str_nat (j + 1))
               (filter (\<lambda>(j, r). 2 \<le> length r) (enumerate 0 (routes s)))
            @ (if 2 \<le> length (current_route s) then [''Current Route''] else []),
            feature_names mi th eu)"
    and rows: "map Inr rows = map (\<lambda>r. extract_single_route_features r mi th eu) qual"
    using extract_route_features_spec [of mi th eu s] unfolding qual_def by blast
  have "length (map Inr rows :: (py_error + pynum list) list) = length qual"
    by (simp only: rows length_map)
  then have len: "length rows = length qual" by simp
  have rowlen: "length row = length (feature_names mi th eu)" if "row \<in> set rows" for row
  proof -
    from that obtain k where k: "k < length rows" "rows ! k = row"
      by (auto simp: in_set_conv_nth)
    have "Inr row = (map Inr rows :: (py_error + pynum list) list) ! k"
      using k by simp
    also have "\<dots> = map (\<lambda>r. extract_single_route_features r mi th eu) qual ! k"
      by (simp only: rows)
    also have "\<dots> = extract_single_route_features (qual ! k) mi th eu"
      using k len by (intro nth_map) simp
    finally have eq: "extract_single_route_features (qual ! k) mi th eu = Inr row" by simp
    have "qual ! k \<in> set qual" using k len by (intro nth_mem) simp
    then have "2 \<le> length (qual ! k)" unfolding qual_def by (auto split: if_splits)
    then have "qual ! k \<noteq> []" by auto
    then show ?thesis using extract_single_returns [of "qual ! k" mi th eu] eq by auto
  qed
  have empty: "rows = []"
    if "filter (\<lambda>r. 2 \<le> length r) (routes s) = [] \<and> \<not> 2 \<le> length (current_route s)"
    using that len unfolding qual_def by simp
  have labels: "filter (\<lambda>(j, r). 2 \<le> length r) (enumerate 0 (routes s)) = []"
    if "filter (\<lambda>r. 2 \<le> length r) (routes s) = []"
    using that by (auto simp: filter_empty_conv enumerate_eq_zip dest: set_zip_rightD)
  show ?thesis
  proof (intro exI [of _ rows] conjI impI ballI)
    show "fst (extract_route_features mi th eu s) =
       Inr (np_array rows,
            map (\<lambda>(j, r). ''Route '' @ str_nat (j + 1))
               (filter (\<lambda>(j, r). 2 \<le> length r) (enumerate 0 (routes s)))
            @ (if 2 \<le> length (current_route s) then [''Current Route''] else []),
            feature_names mi th eu)" by (rule res)
    show "map Inr rows = map (\<lambda>r. extract_single_route_features r mi th eu)
          (filter (\<lambda>r. 2 \<le> length r) (routes s)
           @ (if 2 \<le> length (current_route s) then [current_route s] else []))"
      using rows unfolding qual_def .
    show "length (np_array rows) =
          length (filter (\<lambda>r. 2 \<le> length r) (routes s))
          + (if 2 \<le> length (current_route s) then 1 else 0)"
      using len unfolding qual_def by (simp add: np_array_def)
    show "length row = length (feature_names mi th eu)" if "row \<in> set (np_array rows)" for row
      using that rowlen by (auto simp: np_array_def)
    show "fst (extract_route_features mi th eu s) = Inr ([], [], feature_names mi th eu)"
      if "filter (\<lambda>r. 2 \<le> length r) (routes s) = [] \<and> \<not> 2 \<le> length (current_route s)"
      using that res empty labels by (simp add: np_array_def)
  qed
qed

lemma str_nat_two: "str_nat (Suc (Suc 0)) = ''2''"
  by (simp add: str_nat.simps [of "Suc (Suc 0)"])

theorem extract_route_features_rows_witness:
  "(\<exists>features.
      fst (extract_route_features False False False
             \<lparr>routes = [[(0, 0)], [(0, 0), (3, 4)]], current_route = [(1, 1), (1, 2)],
              dragging = False, drag_route_idx = None, drag_point_idx = None\<rparr>)
        = Inr (features, [''Route 2'', ''Current Route''],
               [''start_x'', ''start_y'', ''end_x'', ''end_y'', ''length''])
      \<and> length features = 2 \<and> (\<forall>row \<in> set features. length row = 5))
   \<and> fst (extract_route_features False False False init)
        = Inr ([], [], [''start_x'', ''start_y'', ''end_x'', ''end_y'', ''length''])"
proof
  show "\<exists>features.
      fst (extract_route_features False False False
             \<lparr>routes = [[(0, 0)], [(0, 0), (3, 4)]], current_route = [(1, 1), (1, 2)],
              dragging = False, drag_route_idx = None, drag_point_idx = None\<rparr>)
        = Inr (features, [''Route 2'', ''Current Route''],
               [''start_x'', ''start_y'', ''end_x'', ''end_y'', ''length''])
      \<and> length features = 2 \<and> (\<forall>row \<in> set features. length row = 5)"
    using extract_route_features_rows [of False False False
             "\<lparr>routes = [[(0, 0)], [(0, 0), (3, 4)]], current_route = [(1, 1), (1, 2)],
              dragging = False, drag_route_idx = None, drag_point_idx = None\<rparr>"]
    by (auto simp: enumerate_eq_zip upt_rec [of 0] upt_rec [of 1] upt_rec [of 2]
        str_nat_two feature_names_def)
  show "fst (extract_route_features False False False init)
        = Inr ([], [], [''start_x'', ''start_y'', ''end_x'', ''end_y'', ''length''])"
    using extract_route_features_rows [of False False False init]
    by (simp add: init_def feature_names_def)
qed


lemma pow2_shift: "(2::real) powi (a + int d) = 2 powi a * 2 ^ d"
proof -
  have "(2::real) powi (a + int d) = 2 powi a * 2 powi (int d)"
    by (rule power_int_add) simp
  then show ?thesis by simp
qed

lemma fl_repr_pos:
  assumes m: "0 < m" "m < 2 ^ 53"
  shows "fl (of_int m * 2 powi k) = of_int m * 2 powi k"
proof -
  define x where "x = real_of_int m * 2 powi k"
  have xpos: "0 < x" unfolding x_def using m(1) by simp
  define E where "E = \<lfloor>log 2 x\<rfloor>"
  have b: "2 powi E \<le> x" "x < 2 powi (E + 1)"
    using binade [OF xpos] unfolding E_def by auto
  have kE: "E - 52 \<le> k"
  proof (rule ccontr)
    assume "\<not> E - 52 \<le> k"
    then have "k + 53 \<le> E" by linarith
    then have le: "(2::real) powi (k + 53) \<le> 2 powi E"
      by (simp add: power_int_increasing)
    have "real_of_int m < real_of_int (2 ^ 53)" using m(2) by (simp only: of_int_less_iff)
    then have "real_of_int m < 2 ^ 53" by simp
    moreover have "0 < (2::real) powi k" by simp
    ultimately have "real_of_int m * 2 powi k < 2 ^ 53 * 2 powi k"
      by (simp only: mult_strict_right_mono)
    moreover have "(2::real) powi (k + 53) = 2 powi k * 2 ^ 53"
      using pow2_shift [of k 53] by simp
    ultimately have "x < 2 powi (k + 53)" unfolding x_def by (simp add: mult.commute)
    then show False using b(1) le by linarith
  qed
  define d where "d = nat (k - (E - 52))"
  have kd: "k = (E - 52) + int d" using kE by (simp add: d_def)
  have pk: "(2::real) powi k = 2 powi (E - 52) * 2 ^ d"
    unfolding kd by (rule pow2_shift)
  have p: "0 < (2::real) powi (E - 52)" by simp
  have q: "x / 2 powi (E - 52) = of_int (m * 2 ^ d)"
    unfolding x_def pk using p by simp
  have "fl x = of_int (rhe (x / 2 powi (E - 52))) * 2 powi (E - 52)"
    using fl_binade [of E x] b xpos by simp
  also have "\<dots> = of_int (m * 2 ^ d) * 2 powi (E - 52)"
    by (simp only: q rhe_of_int)
  also have "\<dots> = x" unfolding x_def pk by simp
  finally show ?thesis unfolding x_def .
qed

lemma fl_repr:
  assumes "\<bar>m\<bar> < 2 ^ 53"
  shows "fl (of_int m * 2 powi k) = of_int m * 2 powi k"
proof -
  consider "m = 0" | "0 < m" | "m < 0" by linarith
  then show ?thesis
  proof cases
    case 1
    then show ?thesis by simp
  next
    case 2
    then show ?thesis using assms by (intro fl_repr_pos) auto
  next
    case 3
    then have "fl (of_int (- m) * 2 powi k) = of_int (- m) * 2 powi k"
      using assms by (intro fl_repr_pos) auto
    then have "fl (- (of_int m * 2 powi k)) = - (of_int m * 2 powi k)" by simp
    then show ?thesis by (simp only: fl_minus neg_equal_iff_equal)
  qed
qed

lemma fl_of_int:
  assumes "\<bar>n\<bar> \<le> 2 ^ 53"
  shows "fl (of_int n) = of_int n"
proof (cases "\<bar>n\<bar> < 2 ^ 53")
  case True
  then show ?thesis using fl_repr [of n 0] by simp
next
  case False
  then have n: "n = 2 ^ 53 \<or> n = - (2 ^ 53)" using assms by linarith
  have one: "fl (2 ^ 53) = 2 ^ 53"
    using fl_repr [of 1 53] by simp
  from n show ?thesis
  proof
    assume "n = 2 ^ 53"
    then show ?thesis using one by simp
  next
    assume "n = - (2 ^ 53)"
    then show ?thesis using one fl_minus [of "2 ^ 53"] by simp
  qed
qed

lemma fl_pos_form:
  assumes "2 powi E \<le> x" "x < 2 powi (E + 1)"
  shows "\<exists>k. fl x = of_int k * 2 powi (E - 52) \<and> 2 ^ 52 \<le> k \<and> k \<le> 2 ^ 53"
proof -
  define p where "p = (2::real) powi (E - 52)"
  define k where "k = rhe (x / p)"
  have p: "0 < p" by (simp add: p_def)
  have lo_eq: "2 ^ 52 * p = 2 powi E" unfolding p_def by (rule pow2_split [symmetric])
  have hi_eq: "2 ^ 53 * p = 2 powi (E + 1)" unfolding p_def by (rule pow2_split' [symmetric])
  have "0 < (2::real) powi E" by simp
  then have x: "0 < x" using assms(1) by linarith
  have fx: "fl x = of_int k * p"
    using fl_binade [of E x] assms x by (simp add: p_def k_def)
  have "2 ^ 52 * p \<le> x" using assms(1) lo_eq by simp
  then have "2 ^ 52 \<le> x / p" using p by (simp only: pos_le_divide_eq)
  then have "of_int (2 ^ 52) \<le> x / p" by simp
  then have lo: "2 ^ 52 \<le> k" unfolding k_def by (rule rhe_ge_int)
  have "x \<le> 2 ^ 53 * p" using assms(2) hi_eq by simp
  then have "x / p \<le> 2 ^ 53" using p by (simp only: pos_divide_le_eq)
  then have "x / p \<le> of_int (2 ^ 53)" by simp
  then have hi: "k \<le> 2 ^ 53" unfolding k_def by (rule rhe_le_int)
  show ?thesis using fx lo hi unfolding p_def by blast
qed

lemma fl_idem_pos:
  assumes "0 < x"
  shows "fl (fl x) = fl x"
proof -
  obtain k where k: "fl x = of_int k * 2 powi (\<lfloor>log 2 x\<rfloor> - 52)" "2 ^ 52 \<le> k" "k \<le> 2 ^ 53"
    using fl_pos_form [OF binade [OF assms]] by blast
  show ?thesis
  proof (cases "k < 2 ^ 53")
    case True
    then show ?thesis unfolding k(1) using k(2) by (intro fl_repr_pos) auto
  next
    case False
    then have "k = 2 ^ 53" using k(3) by linarith
    then have "fl x = 2 ^ 53 * 2 powi (\<lfloor>log 2 x\<rfloor> - 52)" using k(1) by simp
    also have "\<dots> = of_int 1 * 2 powi (\<lfloor>log 2 x\<rfloor> + 1)"
      using pow2_split' [of "\<lfloor>log 2 x\<rfloor>"] by simp
    finally have eq: "fl x = of_int 1 * 2 powi (\<lfloor>log 2 x\<rfloor> + 1)" .
    show ?thesis unfolding eq by (intro fl_repr_pos) auto
  qed
qed

lemma fl_idem: "fl (fl x) = fl x"
proof -
  consider "x = 0" | "0 < x" | "x < 0" by linarith
  then show ?thesis
  proof cases
    case 1
    then show ?thesis by simp
  next
    case 2
    then show ?thesis by (rule fl_idem_pos)
  next
    case 3
    then have "fl (fl (- x)) = fl (- x)" by (intro fl_idem_pos) simp
    then show ?thesis by (simp add: fl_minus)
  qed
qed

section \<open>Coordinate system\<close>







section \<open>Hit testing\<close>

lemma sqrt_64: "sqrt 64 = 8"
  using real_sqrt_abs [of 8] by simp

lemma fl_sqrt_le_8:
  assumes "0 \<le> n"
  shows "fl (sqrt (fl (of_int n))) \<le> 8 \<longleftrightarrow> n \<le> 64"
proof
  assume le: "n \<le> 64"
  then have "fl (of_int n) = of_int n" using assms by (intro fl_of_int) simp
  moreover have "real_of_int n \<le> 64" using le by simp
  then have "sqrt (of_int n) \<le> sqrt 64" by (simp only: real_sqrt_le_iff)
  then have "sqrt (of_int n) \<le> of_int 8" by (simp add: sqrt_64)
  then have "fl (sqrt (of_int n)) \<le> fl (of_int 8)" by (rule fl_mono)
  moreover have "fl (of_int 8) = of_int 8" by (intro fl_of_int) simp
  ultimately show "fl (sqrt (fl (of_int n))) \<le> 8" by simp
next
  assume hit: "fl (sqrt (fl (of_int n))) \<le> 8"
  show "n \<le> 64"
  proof (rule ccontr)
    assume "\<not> n \<le> 64"
    then have "of_int 65 \<le> real_of_int n" by simp
    then have "fl (of_int 65) \<le> fl (of_int n)" by (rule fl_mono)
    moreover have "fl (of_int 65) = of_int 65" by (intro fl_of_int) simp
    ultimately have "65 \<le> fl (of_int n)" by simp
    then have a: "sqrt 65 \<le> sqrt (fl (of_int n))" by (simp only: real_sqrt_le_iff)
    have b: "257 / 32 \<le> sqrt 65" by (rule real_le_rsqrt) (simp add: power2_eq_square)
    have c: "real_of_int 257 * 2 powi (- 5) = 257 / 32" by (simp add: power_int_minus)
    have "of_int 257 * 2 powi (- 5) \<le> sqrt (fl (of_int n))"
      unfolding c using a b by (rule order_trans [rotated])
    then have "fl (of_int 257 * 2 powi (- 5)) \<le> fl (sqrt (fl (of_int n)))" by (rule fl_mono)
    moreover have "fl (of_int 257 * 2 powi (- 5)) = of_int 257 * 2 powi (- 5)"
      by (rule fl_repr) simp
    ultimately have "257 / 32 \<le> fl (sqrt (fl (of_int n)))" unfolding c by simp
    then show False using hit by simp
  qed
qed

lemma point_hit_iff:
  "point_hit cx cy p \<longleftrightarrow>
     (cx - coord_to_canvas_x (fst p)) * (cx - coord_to_canvas_x (fst p))
     + (cy - coord_to_canvas_y (snd p)) * (cy - coord_to_canvas_y (snd p)) \<le> 64"
  using fl_sqrt_le_8 [of "(cx - coord_to_canvas_x (fst p)) * (cx - coord_to_canvas_x (fst p))
     + (cy - coord_to_canvas_y (snd p)) * (cy - coord_to_canvas_y (snd p))"]
  by (simp add: point_hit_def py_sqrt_def py_le_def click_tolerance_def Let_def)

lemma scan_route_None:
  "scan_route cx cy i ps = None \<longleftrightarrow> (\<forall>p \<in> set ps. \<not> point_hit cx cy p)"
  by (induction ps arbitrary: i) auto

lemma scan_route_Some:
  "scan_route cx cy i ps = Some k \<longleftrightarrow>
     (\<exists>n. k = i + n \<and> n < length ps \<and> point_hit cx cy (ps ! n)
          \<and> (\<forall>j < n. \<not> point_hit cx cy (ps ! j)))"
proof (induction ps arbitrary: i)
  case Nil
  then show ?case by simp
next
  case (Cons p ps)
  show ?case
  proof (cases "point_hit cx cy p")
    case True
    have "(\<exists>n. k = i + n \<and> n < length (p # ps) \<and> point_hit cx cy ((p # ps) ! n)
          \<and> (\<forall>j < n. \<not> point_hit cx cy ((p # ps) ! j))) \<longleftrightarrow> k = i"
    proof
      assume "\<exists>n. k = i + n \<and> n < length (p # ps) \<and> point_hit cx cy ((p # ps) ! n)
          \<and> (\<forall>j < n. \<not> point_hit cx cy ((p # ps) ! j))"
      then obtain n where n: "k = i + n" "\<forall>j < n. \<not> point_hit cx cy ((p # ps) ! j)" by blast
      have "n = 0"
      proof (rule ccontr)
        assume "n \<noteq> 0"
        then have "\<not> point_hit cx cy ((p # ps) ! 0)" using n(2) by blast
        then show False using True by simp
      qed
      then show "k = i" using n(1) by simp
    next
      assume "k = i"
      then show "\<exists>n. k = i + n \<and> n < length (p # ps) \<and> point_hit cx cy ((p # ps) ! n)
          \<and> (\<forall>j < n. \<not> point_hit cx cy ((p # ps) ! j))"
        using True by (intro exI [of _ 0]) simp
    qed
    then show ?thesis using True by auto
  next
    case False
    have "(\<exists>n. k = i + n \<and> n < length (p # ps) \<and> point_hit cx cy ((p # ps) ! n)
          \<and> (\<forall>j < n. \<not> point_hit cx cy ((p # ps) ! j)))
       \<longleftrightarrow> (\<exists>n. k = Suc i + n \<and> n < length ps \<and> point_hit cx cy (ps ! n)
          \<and> (\<forall>j < n. \<not> point_hit cx cy (ps ! j)))"
    proof
      assume "\<exists>n. k = i + n \<and> n < length (p # ps) \<and> point_hit cx cy ((p # ps) ! n)
          \<and> (\<forall>j < n. \<not> point_hit cx cy ((p # ps) ! j))"
      then obtain n where n: "k = i + n" "n < length (p # ps)" "point_hit cx cy ((p # ps) ! n)"
        "\<forall>j < n. \<not> point_hit cx cy ((p # ps) ! j)" by blast
      from n(3) False obtain n' where n': "n = Suc n'" by (cases n) auto
      have "\<forall>j < n'. \<not> point_hit cx cy (ps ! j)"
      proof (intro allI impI)
        fix j assume "j < n'"
        then have "Suc j < n" using n' by simp
        then have "\<not> point_hit cx cy ((p # ps) ! Suc j)" using n(4) by blast
        then show "\<not> point_hit cx cy (ps ! j)" by simp
      qed
      then show "\<exists>n. k = Suc i + n \<and> n < length ps \<and> point_hit cx cy (ps ! n)
          \<and> (\<forall>j < n. \<not> point_hit cx cy (ps ! j))"
        using n n' by (intro exI [of _ n']) simp
    next
      assume "\<exists>n. k = Suc i + n \<and> n < length ps \<and> point_hit cx cy (ps ! n)
          \<and> (\<forall>j < n. \<not> point_hit cx cy (ps ! j))"
      then obtain n where n: "k = Suc i + n" "n < length ps" "point_hit cx cy (ps ! n)"
        "\<forall>j < n. \<not> point_hit cx cy (ps ! j)" by blast
      have "\<forall>j < Suc n. \<not> point_hit cx cy ((p # ps) ! j)"
      proof (intro allI impI)
        fix j assume j: "j < Suc n"
        show "\<not> point_hit cx cy ((p # ps) ! j)"
        proof (cases j)
          case 0
          then show ?thesis using False by simp
        next
          case (Suc j')
          then show ?thesis using j n(4) by simp
        qed
      qed
      then show "\<exists>n. k = i + n \<and> n < length (p # ps) \<and> point_hit cx cy ((p # ps) ! n)
          \<and> (\<forall>j < n. \<not> point_hit cx cy ((p # ps) ! j))"
        using n by (intro exI [of _ "Suc n"]) simp
    qed
    then show ?thesis using False Cons.IH [of "Suc i"] by simp
  qed
qed

lemma scan_route_Some_hit:
  "scan_route cx cy i ps = Some k \<Longrightarrow> \<exists>p \<in> set ps. point_hit cx cy p"
  using scan_route_None [of cx cy i ps] by auto

lemma scan_routes_None:
  "scan_routes cx cy i rs = None \<longleftrightarrow> (\<forall>r \<in> set rs. \<forall>p \<in> set r. \<not> point_hit cx cy p)"
proof (induction rs arbitrary: i)
  case Nil
  then show ?case by simp
next
  case (Cons r rs)
  show ?case
  proof (cases "scan_route cx cy 0 r")
    case None
    then have nohit: "\<forall>p \<in> set r. \<not> point_hit cx cy p" by (simp add: scan_route_None)
    show ?thesis using None nohit Cons.IH [of "Suc i"] by simp
  next
    case (Some k)
    then show ?thesis using scan_route_Some_hit [OF Some] by auto
  qed
qed

lemma scan_routes_Some:
  "scan_routes cx cy i rs = Some (a, b) \<longleftrightarrow>
     (\<exists>m n. a = int (i + m) \<and> b = int n \<and> m < length rs \<and> n < length (rs ! m)
           \<and> point_hit cx cy (rs ! m ! n)
           \<and> (\<forall>j < n. \<not> point_hit cx cy (rs ! m ! j))
           \<and> (\<forall>l < m. \<forall>p \<in> set (rs ! l). \<not> point_hit cx cy p))"
  (is "?L i rs \<longleftrightarrow> ?R i rs")
proof (induction rs arbitrary: i)
  case Nil
  then show ?case by simp
next
  case (Cons r rs)
  show ?case
  proof (cases "scan_route cx cy 0 r")
    case None
    then have nohit: "\<forall>p \<in> set r. \<not> point_hit cx cy p" by (simp add: scan_route_None)
    have "?R i (r # rs) \<longleftrightarrow> ?R (Suc i) rs"
    proof
      assume "?R i (r # rs)"
      then obtain m n where mn: "a = int (i + m)" "b = int n" "m < length (r # rs)"
        "n < length ((r # rs) ! m)" "point_hit cx cy ((r # rs) ! m ! n)"
        "\<forall>j < n. \<not> point_hit cx cy ((r # rs) ! m ! j)"
        "\<forall>l < m. \<forall>p \<in> set ((r # rs) ! l). \<not> point_hit cx cy p" by blast
      have "m \<noteq> 0"
      proof
        assume "m = 0"
        then have "r ! n \<in> set r" "point_hit cx cy (r ! n)" using mn(4,5) by simp_all
        then show False using nohit by blast
      qed
      then obtain m' where m': "m = Suc m'" by (cases m) auto
      have "\<forall>l < m'. \<forall>p \<in> set (rs ! l). \<not> point_hit cx cy p"
      proof (intro allI impI)
        fix l assume "l < m'"
        then have "Suc l < m" using m' by simp
        then have "\<forall>p \<in> set ((r # rs) ! Suc l). \<not> point_hit cx cy p" using mn(7) by blast
        then show "\<forall>p \<in> set (rs ! l). \<not> point_hit cx cy p" by simp
      qed
      then show "?R (Suc i) rs"
        using mn m' by (intro exI [of _ m'] exI [of _ n]) simp
    next
      assume "?R (Suc i) rs"
      then obtain m n where mn: "a = int (Suc i + m)" "b = int n" "m < length rs"
        "n < length (rs ! m)" "point_hit cx cy (rs ! m ! n)"
        "\<forall>j < n. \<not> point_hit cx cy (rs ! m ! j)"
        "\<forall>l < m. \<forall>p \<in> set (rs ! l). \<not> point_hit cx cy p" by blast
      have "\<forall>l < Suc m. \<forall>p \<in> set ((r # rs) ! l). \<not> point_hit cx cy p"
      proof (intro allI impI)
        fix l assume l: "l < Suc m"
        show "\<forall>p \<in> set ((r # rs) ! l). \<not> point_hit cx cy p"
        proof (cases l)
          case 0
          then show ?thesis using nohit by simp
        next
          case (Suc l')
          then show ?thesis using l mn(7) by simp
        qed
      qed
      then show "?R i (r # rs)"
        using mn by (intro exI [of _ "Suc m"] exI [of _ n]) simp
    qed
    then show ?thesis using None Cons.IH [of "Suc i"] by simp
  next
    case (Some k)
    then obtain hit: "k < length r" "point_hit cx cy (r ! k)"
      "\<forall>j < k. \<not> point_hit cx cy (r ! j)"
      using scan_route_Some [of cx cy 0 r k] by auto
    have "?R i (r # rs) \<longleftrightarrow> a = int i \<and> b = int k"
    proof
      assume "?R i (r # rs)"
      then obtain m n where mn: "a = int (i + m)" "b = int n" "m < length (r # rs)"
        "n < length ((r # rs) ! m)" "point_hit cx cy ((r # rs) ! m ! n)"
        "\<forall>j < n. \<not> point_hit cx cy ((r # rs) ! m ! j)"
        "\<forall>l < m. \<forall>p \<in> set ((r # rs) ! l). \<not> point_hit cx cy p" by blast
      have m0: "m = 0"
      proof (rule ccontr)
        assume "m \<noteq> 0"
        then have "\<forall>p \<in> set ((r # rs) ! 0). \<not> point_hit cx cy p" using mn(7) by blast
        moreover have "r ! k \<in> set r" using hit(1) by simp
        ultimately show False using hit(2) by simp
      qed
      have "n = k"
      proof (rule ccontr)
        assume "n \<noteq> k"
        then consider "n < k" | "k < n" by linarith
        then show False
        proof cases
          case 1
          then show False using hit(3) mn(5) m0 by simp
        next
          case 2
          then show False using hit(2) mn(6) m0 by simp
        qed
      qed
      then show "a = int i \<and> b = int k" using mn(1,2) m0 by simp
    next
      assume "a = int i \<and> b = int k"
      then show "?R i (r # rs)"
        using hit by (intro exI [of _ 0] exI [of _ k]) simp
    qed
    then show ?thesis using Some by auto
  qed
qed


lemma find_point_current:
  "find_point_at_position cx cy s = Some (- 1, int n) \<longleftrightarrow>
     n < length (current_route s) \<and> point_hit cx cy (current_route s ! n)
     \<and> (\<forall>j < n. \<not> point_hit cx cy (current_route s ! j))"
proof (cases "scan_route cx cy 0 (current_route s)")
  case None
  then have nohit: "\<forall>p \<in> set (current_route s). \<not> point_hit cx cy p"
    by (simp add: scan_route_None)
  have "scan_routes cx cy 0 (routes s) \<noteq> Some (- 1, int n)"
    using scan_routes_Some [of cx cy 0 "routes s" "- 1" "int n"] by auto
  moreover have "\<not> (n < length (current_route s) \<and> point_hit cx cy (current_route s ! n))"
    using nohit nth_mem by blast
  ultimately show ?thesis using None by (auto simp: find_point_at_position_def)
next
  case (Some k)
  then show ?thesis
    using scan_route_Some [of cx cy 0 "current_route s" n]
    by (auto simp: find_point_at_position_def)
qed

lemma find_point_committed:
  "find_point_at_position cx cy s = Some (int m, int n) \<longleftrightarrow>
     (\<forall>p \<in> set (current_route s). \<not> point_hit cx cy p)
     \<and> m < length (routes s) \<and> n < length (routes s ! m)
     \<and> point_hit cx cy (routes s ! m ! n)
     \<and> (\<forall>j < n. \<not> point_hit cx cy (routes s ! m ! j))
     \<and> (\<forall>l < m. \<forall>p \<in> set (routes s ! l). \<not> point_hit cx cy p)"
proof (cases "scan_route cx cy 0 (current_route s)")
  case None
  then have nohit: "\<forall>p \<in> set (current_route s). \<not> point_hit cx cy p"
    by (simp add: scan_route_None)
  show ?thesis
    using None nohit scan_routes_Some [of cx cy 0 "routes s" "int m" "int n"]
    by (auto simp: find_point_at_position_def)
next
  case (Some k)
  then have "\<exists>p \<in> set (current_route s). point_hit cx cy p" by (rule scan_route_Some_hit)
  then show ?thesis using Some by (auto simp: find_point_at_position_def)
qed

lemma find_point_None:
  "find_point_at_position cx cy s = None \<longleftrightarrow>
     (\<forall>p \<in> set (current_route s). \<not> point_hit cx cy p)
     \<and> (\<forall>r \<in> set (routes s). \<forall>p \<in> set r. \<not> point_hit cx cy p)"
proof (cases "scan_route cx cy 0 (current_route s)")
  case None
  then have nohit: "\<forall>p \<in> set (current_route s). \<not> point_hit cx cy p"
    by (simp add: scan_route_None)
  show ?thesis using None nohit by (simp add: find_point_at_position_def scan_routes_None)
next
  case (Some k)
  then have "\<exists>p \<in> set (current_route s). point_hit cx cy p" by (rule scan_route_Some_hit)
  then show ?thesis using Some by (auto simp: find_point_at_position_def)
qed

lemma find_point_shape:
  assumes "find_point_at_position cx cy s = Some (a, b)"
  shows "(a = - 1 \<or> 0 \<le> a) \<and> 0 \<le> b"
proof (cases "scan_route cx cy 0 (current_route s)")
  case None
  then have "scan_routes cx cy 0 (routes s) = Some (a, b)"
    using assms by (simp add: find_point_at_position_def)
  then show ?thesis using scan_routes_Some [of cx cy 0 "routes s" a b] by auto
next
  case (Some k)
  then show ?thesis using assms by (auto simp: find_point_at_position_def)
qed

lemma find_point_current_first:
  assumes "\<exists>p \<in> set (current_route s). point_hit cx cy p"
  shows "\<exists>n. find_point_at_position cx cy s = Some (- 1, int n)"
proof (cases "scan_route cx cy 0 (current_route s)")
  case None
  then show ?thesis using assms by (simp add: scan_route_None)
next
  case (Some k)
  then show ?thesis by (simp add: find_point_at_position_def)
qed

lemma point_hit_distance:
  "point_hit cx cy p \<longleftrightarrow>
     sqrt (of_int ((cx - coord_to_canvas_x (fst p)) * (cx - coord_to_canvas_x (fst p))
                   + (cy - coord_to_canvas_y (snd p)) * (cy - coord_to_canvas_y (snd p))))
       \<le> of_int click_tolerance"
proof -
  define n where "n = (cx - coord_to_canvas_x (fst p)) * (cx - coord_to_canvas_x (fst p))
                   + (cy - coord_to_canvas_y (snd p)) * (cy - coord_to_canvas_y (snd p))"
  have "sqrt (real_of_int n) \<le> sqrt 64 \<longleftrightarrow> real_of_int n \<le> 64" by (rule real_sqrt_le_iff)
  then have "sqrt (real_of_int n) \<le> 8 \<longleftrightarrow> n \<le> 64" by (simp add: sqrt_64)
  then show ?thesis
    using point_hit_iff [of cx cy p] unfolding n_def [symmetric] click_tolerance_def by simp
qed

text \<open>
  C4.  \<open>find_point_at_position\<close> returns the first point, in scan order, whose canvas position
  is within \<open>click_tolerance\<close> of the given position: the current route from its first point
  on (reference \<open>-1\<close>), then the committed routes in ascending index, each from its first
  point on.  A hit in the current route wins over any committed route; without a hit the
  result is \<open>None\<close>.  The test \<open>distance <= click_tolerance\<close>, computed in floating point, is
  the exact comparison of the Euclidean canvas distance with the tolerance.
\<close>

theorem find_point_at_position_spec:
  "(find_point_at_position cx cy s = None \<longleftrightarrow>
      (\<forall>p \<in> set (current_route s). \<not> point_hit cx cy p)
      \<and> (\<forall>r \<in> set (routes s). \<forall>p \<in> set r. \<not> point_hit cx cy p))
   \<and> (find_point_at_position cx cy s = Some (- 1, int n) \<longleftrightarrow>
      n < length (current_route s) \<and> point_hit cx cy (current_route s ! n)
      \<and> (\<forall>j < n. \<not> point_hit cx cy (current_route s ! j)))
   \<and> (find_point_at_position cx cy s = Some (int m, int n) \<longleftrightarrow>
      (\<forall>p \<in> set (current_route s). \<not> point_hit cx cy p)
      \<and> m < length (routes s) \<and> n < length (routes s ! m)
      \<and> point_hit cx cy (routes s ! m ! n)
      \<and> (\<forall>j < n. \<not> point_hit cx cy (routes s ! m ! j))
      \<and> (\<forall>l < m. \<forall>p \<in> set (routes s ! l). \<not> point_hit cx cy p))
   \<and> (\<forall>a b. find_point_at_position cx cy s = Some (a, b) \<longrightarrow> (a = - 1 \<or> 0 \<le> a) \<and> 0 \<le> b)
   \<and> ((\<exists>q \<in> set (current_route s). point_hit cx cy q) \<longrightarrow>
        (\<exists>k. find_point_at_position cx cy s = Some (- 1, int k)))
   \<and> (point_hit cx cy p \<longleftrightarrow>
        sqrt (of_int ((cx - coord_to_canvas_x (fst p)) * (cx - coord_to_canvas_x (fst p))
                      + (cy - coord_to_canvas_y (snd p)) * (cy - coord_to_canvas_y (snd p))))
          \<le> of_int click_tolerance)"
  using find_point_None [of cx cy s] find_point_current [of cx cy s n]
    find_point_committed [of cx cy s m n] find_point_shape [of cx cy s]
    find_point_current_first [of s cx cy] point_hit_distance [of cx cy p]
  by blast

theorem find_point_at_position_spec_witness:
  "find_point_at_position 20 20
     \<lparr>routes = [[(9, 9)], [(1, 1), (2, 2)]], current_route = [(5, 5), (1, 1)],
      dragging = False, drag_route_idx = None, drag_point_idx = None\<rparr> = Some (- 1, 1)
   \<and> find_point_at_position 20 20
     \<lparr>routes = [[(9, 9)], [(1, 1), (2, 2)]], current_route = [(5, 5)],
      dragging = False, drag_route_idx = None, drag_point_idx = None\<rparr> = Some (1, 0)
   \<and> find_point_at_position 20 20
     \<lparr>routes = [[(9, 9)]], current_route = [(5, 5)],
      dragging = False, drag_route_idx = None, drag_point_idx = None\<rparr> = None"
  using
    find_point_at_position_spec [where cx = 20 and cy = 20 and n = 1 and m = 0 and p = "(1, 1)"
      and s = "\<lparr>routes = [[(9, 9)], [(1, 1), (2, 2)]], current_route = [(5, 5), (1, 1)],
      dragging = False, drag_route_idx = None, drag_point_idx = None\<rparr>"]
    find_point_at_position_spec [where cx = 20 and cy = 20 and n = 0 and m = 1 and p = "(1, 1)"
      and s = "\<lparr>routes = [[(9, 9)], [(1, 1), (2, 2)]], current_route = [(5, 5)],
      dragging = False, drag_route_idx = None, drag_point_idx = None\<rparr>"]
    find_point_at_position_spec [where cx = 20 and cy = 20 and n = 0 and m = 0 and p = "(1, 1)"
      and s = "\<lparr>routes = [[(9, 9)]], current_route = [(5, 5)],
      dragging = False, drag_route_idx = None, drag_point_idx = None\<rparr>"]
  by (simp add: point_hit_iff coord_to_canvas_x_def coord_to_canvas_y_def origin_x_def
      origin_y_def grid_size_def)

section \<open>Line hit testing\<close>








lemma fl_numeral:
  "numeral k \<le> (9007199254740992::int) \<Longrightarrow> fl (numeral k) = numeral k"
  using fl_of_int [of "numeral k"] by simp

lemma fl_one: "fl 1 = 1"
  using fl_of_int [of 1] by simp

lemma fl_half: "fl (1 / 2) = 1 / 2"
  using fl_repr [of 1 "- 1"] by (simp add: power_int_minus)














section \<open>Arc length\<close>

lemma seg_dist_float: "\<exists>r. seg_dist p q = PFloat r \<and> 0 \<le> r \<and> fl r = r"
proof -
  have "0 \<le> fl (sqrt (to_float (py_add (py_sq (PInt (fst q - fst p))) (py_sq (PInt (snd q - snd p))))))"
    by (intro fl_nonneg real_sqrt_ge_zero) (simp add: fl_nonneg)
  then show ?thesis unfolding seg_dist_def py_sqrt_def by (simp add: fl_idem)
qed

lemma py_add_float:
  assumes "fl c = c" "0 \<le> r"
  shows "\<exists>c'. py_add (PFloat c) (PFloat r) = PFloat c' \<and> c \<le> c' \<and> fl c' = c'"
proof -
  have "fl c \<le> fl (c + r)" using assms(2) by (intro fl_mono) simp
  then show ?thesis using assms(1) by (simp add: fl_idem)
qed

lemma length_loop_ge:
  "fl c = c \<Longrightarrow> \<exists>r. length_loop (PFloat c) ps = PFloat r \<and> c \<le> r \<and> fl r = r"
proof (induction ps arbitrary: c rule: induct_list012)
  case 1
  then show ?case by simp
next
  case (2 x)
  then show ?case by simp
next
  case (3 p1 p2 ps)
  obtain s where s: "seg_dist p1 p2 = PFloat s" "0 \<le> s" using seg_dist_float by blast
  obtain c' where c': "py_add (PFloat c) (PFloat s) = PFloat c'" "c \<le> c'" "fl c' = c'"
    using py_add_float [OF "3.prems" s(2)] by blast
  obtain r where r: "length_loop (PFloat c') (p2 # ps) = PFloat r" "c' \<le> r" "fl r = r"
    using "3.IH"(2) [OF c'(3)] by blast
  show ?case using s c' r by simp
qed

lemma walk_None_iff:
  "fl c = c \<Longrightarrow>
   walk (PFloat c) d ps = None \<longleftrightarrow> length ps < 2 \<or> val (length_loop (PFloat c) ps) < val d"
proof (induction ps arbitrary: c rule: induct_list012)
  case 1
  then show ?case by simp
next
  case (2 x)
  then show ?case by simp
next
  case (3 p1 p2 ps)
  obtain s where s: "seg_dist p1 p2 = PFloat s" "0 \<le> s" using seg_dist_float by blast
  obtain c' where c': "py_add (PFloat c) (PFloat s) = PFloat c'" "c \<le> c'" "fl c' = c'"
    using py_add_float [OF "3.prems" s(2)] by blast
  obtain r where r: "length_loop (PFloat c') (p2 # ps) = PFloat r" "c' \<le> r"
    using length_loop_ge [OF c'(3)] by blast
  show ?case
  proof (cases "val d \<le> c'")
    case True
    then have "walk (PFloat c) d (p1 # p2 # ps) \<noteq> None"
      using s(1) c'(1) by (simp add: Let_def py_le_def)
    moreover have "\<not> val (length_loop (PFloat c) (p1 # p2 # ps)) < val d"
      using True s(1) c'(1) r by simp
    ultimately show ?thesis by simp
  next
    case False
    then have w: "walk (PFloat c) d (p1 # p2 # ps) = walk (PFloat c') d (p2 # ps)"
      using s(1) c'(1) by (simp add: Let_def py_le_def)
    have l: "length_loop (PFloat c) (p1 # p2 # ps) = length_loop (PFloat c') (p2 # ps)"
      using s(1) c'(1) by simp
    show ?thesis
    proof (cases ps)
      case Nil
      then show ?thesis using w l False by simp
    next
      case (Cons a list)
      then show ?thesis using w l "3.IH"(2) [OF c'(3)] by simp
    qed
  qed
qed

lemma walk_match:
  assumes "Suc i < length ps"
    and "\<forall>j < i. val (length_loop c (take (j + 2) ps)) < val d"
    and "val d \<le> val (length_loop c (take (i + 2) ps))"
  shows "walk c d ps =
     (let A = ps ! i; B = ps ! Suc i;
          cumulative = length_loop c (take (Suc i) ps);
          segment_length = seg_dist A B
      in if py_eq segment_length (PInt 0) then Some (as_pypoint A)
         else let ratio = py_truediv (py_sub d cumulative) segment_length
              in Some (py_add (PInt (fst A)) (py_mul ratio (PInt (fst B - fst A))),
                       py_add (PInt (snd A)) (py_mul ratio (PInt (snd B - snd A)))))"
  using assms
proof (induction i arbitrary: c ps)
  case 0
  then obtain p1 p2 ps' where ps: "ps = p1 # p2 # ps'"
    by (cases ps; cases "tl ps") auto
  show ?case using "0.prems"(3) unfolding ps by (simp add: Let_def py_le_def)
next
  case (Suc i)
  then obtain p1 p2 ps' where ps: "ps = p1 # p2 # ps'"
    by (cases ps; cases "tl ps") auto
  define c' where "c' = py_add c (seg_dist p1 p2)"
  have "val (length_loop c (take (0 + 2) ps)) < val d" using Suc.prems(2) by blast
  then have lt: "val c' < val d" unfolding ps c'_def by simp
  then have w: "walk c d ps = walk c' d (p2 # ps')"
    unfolding ps c'_def by (simp add: Let_def py_le_def)
  have tk: "length_loop c (take (Suc (Suc k)) ps) = length_loop c' (take (Suc k) (p2 # ps'))" for k
    unfolding ps c'_def by simp
  have a1: "Suc i < length (p2 # ps')" using Suc.prems(1) unfolding ps by simp
  have a2: "\<forall>j < i. val (length_loop c' (take (j + 2) (p2 # ps'))) < val d"
  proof (intro allI impI)
    fix j assume "j < i"
    then have "val (length_loop c (take (Suc j + 2) ps)) < val d" using Suc.prems(2) by simp
    then show "val (length_loop c' (take (j + 2) (p2 # ps'))) < val d"
      using tk [of "Suc j"] by simp
  qed
  have a3: "val d \<le> val (length_loop c' (take (i + 2) (p2 # ps')))"
    using Suc.prems(3) tk [of "Suc i"] by simp
  have nth: "ps ! Suc i = (p2 # ps') ! i" "ps ! Suc (Suc i) = (p2 # ps') ! Suc i"
    unfolding ps by simp_all
  show ?case
    unfolding w Suc.IH [OF a1 a2 a3] nth tk [of i] ..
qed

lemma length_loop_take_all: "length_loop c (take (length ps) ps) = length_loop c ps"
  by simp

lemma first_match_exists:
  assumes "2 \<le> length ps" "val d \<le> val (length_loop c ps)"
  shows "\<exists>i. Suc i < length ps
           \<and> (\<forall>j < i. val (length_loop c (take (j + 2) ps)) < val d)
           \<and> val d \<le> val (length_loop c (take (i + 2) ps))"
proof -
  define P where "P i \<longleftrightarrow> Suc i < length ps \<and> val d \<le> val (length_loop c (take (i + 2) ps))" for i
  have "P (length ps - 2)" unfolding P_def using assms by simp
  then have ex: "\<exists>i. P i" by blast
  define i where "i = (LEAST i. P i)"
  have Pi: "P i" unfolding i_def using ex by (rule LeastI_ex)
  have least: "\<not> P j" if "j < i" for j using that not_less_Least unfolding i_def by blast
  have "\<forall>j < i. val (length_loop c (take (j + 2) ps)) < val d"
  proof (intro allI impI)
    fix j assume j: "j < i"
    then have "Suc j < length ps" using Pi unfolding P_def by simp
    then show "val (length_loop c (take (j + 2) ps)) < val d"
      using least [OF j] unfolding P_def by simp
  qed
  then show ?thesis using Pi unfolding P_def by blast
qed

lemma sqrt_100: "sqrt 100 = 10"
  using real_sqrt_abs [of 10] by simp

lemma seg_dist_10: "seg_dist (0, 0) (10, 0) = PFloat 10" "seg_dist (10, 0) (10, 10) = PFloat 10"
  by (simp_all add: seg_dist_def py_sqrt_def fl_numeral sqrt_100)

lemma sqrt_25: "sqrt 25 = 5"
  using real_sqrt_abs [of 5] by simp

lemma seg_dist_345: "seg_dist (0, 0) (3, 4) = PFloat 5"
  by (simp add: seg_dist_def py_sqrt_def fl_numeral sqrt_25)

lemma seg_dist_10v: "seg_dist (3, 4) (3, 14) = PFloat 10"
  by (simp add: seg_dist_def py_sqrt_def fl_numeral sqrt_100)

lemma point_at_distance_example:
  "get_point_at_distance [(0, 0), (10, 0), (10, 10)] (PInt 15) = (PFloat 10, PFloat 5)"
  by (simp add: get_point_at_distance_def py_le_def py_eq_def seg_dist_10 fl_numeral fl_half Let_def)


section \<open>Route length and reversal\<close>

lemma seg_dist_sym: "seg_dist p q = seg_dist q p"
proof -
  have "(fst q - fst p) * (fst q - fst p) = (fst p - fst q) * (fst p - fst q)"
       "(snd q - snd p) * (snd q - snd p) = (snd p - snd q) * (snd p - snd q)"
    by algebra+
  then show ?thesis by (simp add: seg_dist_def)
qed

lemma length_loop_foldl:
  "length_loop c ps = foldl py_add c (map (\<lambda>(a, b). seg_dist a b) (zip ps (tl ps)))"
  by (induction ps arbitrary: c rule: induct_list012) simp_all

lemma segs_snoc:
  "ps \<noteq> [] \<Longrightarrow>
   map (\<lambda>(a, b). seg_dist a b) (zip (ps @ [x]) (tl (ps @ [x])))
     = map (\<lambda>(a, b). seg_dist a b) (zip ps (tl ps)) @ [seg_dist (last ps) x]"
proof (induction ps rule: induct_list012)
  case 1
  then show ?case by simp
next
  case (2 p)
  then show ?case by simp
next
  case (3 p1 p2 ps)
  then show ?case by simp
qed

lemma segs_rev:
  "map (\<lambda>(a, b). seg_dist a b) (zip (rev ps) (tl (rev ps)))
     = rev (map (\<lambda>(a, b). seg_dist a b) (zip ps (tl ps)))"
proof (induction ps rule: induct_list012)
  case 1
  then show ?case by simp
next
  case (2 p)
  then show ?case by simp
next
  case (3 p1 p2 ps)
  have ne: "rev (p2 # ps) \<noteq> []" by simp
  have "map (\<lambda>(a, b). seg_dist a b) (zip (rev (p1 # p2 # ps)) (tl (rev (p1 # p2 # ps))))
      = map (\<lambda>(a, b). seg_dist a b) (zip (rev (p2 # ps) @ [p1]) (tl (rev (p2 # ps) @ [p1])))"
    by simp
  also have "\<dots> = map (\<lambda>(a, b). seg_dist a b) (zip (rev (p2 # ps)) (tl (rev (p2 # ps))))
                    @ [seg_dist (last (rev (p2 # ps))) p1]"
    by (rule segs_snoc [OF ne])
  also have "\<dots> = rev (map (\<lambda>(a, b). seg_dist a b) (zip (p2 # ps) (tl (p2 # ps))))
                    @ [seg_dist p2 p1]"
    by (simp only: "3.IH"(2) last_rev list.sel)
  also have "\<dots> = rev (map (\<lambda>(a, b). seg_dist a b) (zip (p1 # p2 # ps) (tl (p1 # p2 # ps))))"
    by (simp add: seg_dist_sym [of p2 p1])
  finally show ?case .
qed

lemma calculate_route_length_foldl:
  "calculate_route_length route
     = foldl py_add (PFloat 0) (map (\<lambda>(a, b). seg_dist a b) (zip route (tl route)))"
proof (cases "length route < 2")
  case True
  then have "route = [] \<or> (\<exists>p. route = [p])"
    by (cases route; cases "tl route") auto
  then show ?thesis by (auto simp: calculate_route_length_def)
next
  case False
  then show ?thesis by (simp add: calculate_route_length_def length_loop_foldl)
qed

lemma route_length_rev_short:
  assumes "length route \<le> 3"
  shows "calculate_route_length (rev route) = calculate_route_length route"
proof -
  consider "route = []" | p where "route = [p]" | p q where "route = [p, q]"
    | p q r where "route = [p, q, r]"
    using assms by (cases route; cases "tl route"; cases "tl (tl route)"; cases "tl (tl (tl route))") auto
  then show ?thesis
  proof cases
    case 1
    then show ?thesis by simp
  next
    case 2
    then show ?thesis by simp
  next
    case 3
    then show ?thesis by (simp add: calculate_route_length_def seg_dist_sym [of q p])
  next
    case 4
    obtain s1 where s1: "seg_dist p q = PFloat s1" "fl s1 = s1"
      using seg_dist_float [of p q] by blast
    obtain s2 where s2: "seg_dist q r = PFloat s2" "fl s2 = s2"
      using seg_dist_float [of q r] by blast
    have "calculate_route_length route = PFloat (fl (s1 + s2))"
      unfolding 4 by (simp add: calculate_route_length_def s1 s2)
    moreover have "calculate_route_length (rev route) = PFloat (fl (s2 + s1))"
      unfolding 4
      by (simp add: calculate_route_length_def seg_dist_sym [of q p] seg_dist_sym [of r q] s1 s2)
    ultimately show ?thesis by (simp add: add.commute)
  qed
qed


lemma sqrt_2_bounds:
  "12738103345051545 / 9007199254740992 < sqrt 2" "sqrt 2 < 12738103345051547 / 9007199254740992"
proof -
  show "12738103345051545 / 9007199254740992 < sqrt 2"
    by (rule real_less_rsqrt) (simp add: power2_eq_square)
  show "sqrt 2 < 12738103345051547 / 9007199254740992"
    by (rule real_less_lsqrt) (simp_all add: power2_eq_square)
qed

lemma fl_sqrt_2: "fl (sqrt 2) = 6369051672525773 / 4503599627370496"
proof -
  define r where "r = sqrt 2"
  have lo: "12738103345051545 / 9007199254740992 < r"
    and hi: "r < 12738103345051547 / 9007199254740992"
    unfolding r_def by (rule sqrt_2_bounds)+
  have b1: "2 powi 0 \<le> \<bar>r\<bar>" using lo by simp
  have b2: "\<bar>r\<bar> < 2 powi (0 + 1)" using lo hi by simp
  have "\<bar>r / 2 powi (0 - 52) - of_int 6369051672525773\<bar> < 1 / 2"
    using lo hi by (simp add: power_int_minus abs_if)
  then have "rhe (r / 2 powi (0 - 52)) = 6369051672525773" by (rule rhe_near)
  then have "fl r = of_int 6369051672525773 * 2 powi (0 - 52)"
    using fl_binade [OF b1 b2] by simp
  then show ?thesis unfolding r_def by (simp add: power_int_minus)
qed

lemma fl_forward_1:
  "fl (1 + 6369051672525773 / 4503599627370496) = 5436325649948134 / 2251799813685248"
proof -
  define x :: real where "x = 1 + 6369051672525773 / 4503599627370496"
  have b1: "2 powi 1 \<le> \<bar>x\<bar>" unfolding x_def by simp
  have b2: "\<bar>x\<bar> < 2 powi (1 + 1)" unfolding x_def by simp
  have "rhe (x / 2 powi (1 - 52)) = 5436325649948134"
    by (rule rhe_tie_even) (simp_all add: x_def power_int_minus)
  then have "fl x = of_int 5436325649948134 * 2 powi (1 - 52)"
    using fl_binade [OF b1 b2] by simp
  then show ?thesis unfolding x_def by (simp add: power_int_minus)
qed

lemma fl_forward_2:
  "fl (5436325649948134 / 2251799813685248 + 6369051672525773 / 4503599627370496)
     = 8620851486211020 / 2251799813685248"
proof -
  define x :: real
    where "x = 5436325649948134 / 2251799813685248 + 6369051672525773 / 4503599627370496"
  have b1: "2 powi 1 \<le> \<bar>x\<bar>" unfolding x_def by simp
  have b2: "\<bar>x\<bar> < 2 powi (1 + 1)" unfolding x_def by simp
  have "rhe (x / 2 powi (1 - 52)) = 8620851486211020"
    by (rule rhe_tie_even) (simp_all add: x_def power_int_minus)
  then have "fl x = of_int 8620851486211020 * 2 powi (1 - 52)"
    using fl_binade [OF b1 b2] by simp
  then show ?thesis unfolding x_def by (simp add: power_int_minus)
qed

lemma fl_backward_1:
  "fl (6369051672525773 / 4503599627370496 + 6369051672525773 / 4503599627370496)
     = 6369051672525773 / 2251799813685248"
  using fl_repr [of 6369051672525773 "- 51"] by (simp add: power_int_minus)

lemma fl_backward_2:
  "fl (6369051672525773 / 2251799813685248 + 1) = 8620851486211021 / 2251799813685248"
  using fl_repr [of 8620851486211021 "- 51"] by (simp add: power_int_minus)

lemma fl_sqrt_2_idem:
  "fl (6369051672525773 / 4503599627370496) = 6369051672525773 / 4503599627370496"
  using fl_repr [of 6369051672525773 "- 52"] by (simp add: power_int_minus)

lemma seg_dist_unit: "seg_dist (0, 0) (0, 1) = PFloat 1" "seg_dist (0, 1) (0, 0) = PFloat 1"
  by (simp_all add: seg_dist_def py_sqrt_def fl_one)

lemma seg_dist_diag:
  "seg_dist (0, 1) (1, 0) = PFloat (6369051672525773 / 4503599627370496)"
  "seg_dist (1, 0) (2, 1) = PFloat (6369051672525773 / 4503599627370496)"
  "seg_dist (2, 1) (1, 0) = PFloat (6369051672525773 / 4503599627370496)"
  "seg_dist (1, 0) (0, 1) = PFloat (6369051672525773 / 4503599627370496)"
  by (simp_all add: seg_dist_def py_sqrt_def fl_numeral fl_sqrt_2)

lemma py_add_forward:
  "py_add (PFloat 0) (PFloat 1) = PFloat 1"
  "py_add (PFloat 1) (PFloat (6369051672525773 / 4503599627370496))
     = PFloat (5436325649948134 / 2251799813685248)"
  "py_add (PFloat (5436325649948134 / 2251799813685248))
          (PFloat (6369051672525773 / 4503599627370496))
     = PFloat (8620851486211020 / 2251799813685248)"
proof -
  show "py_add (PFloat 0) (PFloat 1) = PFloat 1" by (simp add: fl_one)
  show "py_add (PFloat 1) (PFloat (6369051672525773 / 4503599627370496))
     = PFloat (5436325649948134 / 2251799813685248)"
    by (simp only: py_add.simps to_float.simps fl_forward_1)
  show "py_add (PFloat (5436325649948134 / 2251799813685248))
          (PFloat (6369051672525773 / 4503599627370496))
     = PFloat (8620851486211020 / 2251799813685248)"
    by (simp only: py_add.simps to_float.simps fl_forward_2)
qed

lemma py_add_backward:
  "py_add (PFloat 0) (PFloat (6369051672525773 / 4503599627370496))
     = PFloat (6369051672525773 / 4503599627370496)"
  "py_add (PFloat (6369051672525773 / 4503599627370496))
          (PFloat (6369051672525773 / 4503599627370496))
     = PFloat (6369051672525773 / 2251799813685248)"
  "py_add (PFloat (6369051672525773 / 2251799813685248)) (PFloat 1)
     = PFloat (8620851486211021 / 2251799813685248)"
proof -
  show "py_add (PFloat 0) (PFloat (6369051672525773 / 4503599627370496))
     = PFloat (6369051672525773 / 4503599627370496)"
    by (simp only: py_add.simps to_float.simps add_0 fl_sqrt_2_idem)
  show "py_add (PFloat (6369051672525773 / 4503599627370496))
          (PFloat (6369051672525773 / 4503599627370496))
     = PFloat (6369051672525773 / 2251799813685248)"
    by (simp only: py_add.simps to_float.simps fl_backward_1)
  show "py_add (PFloat (6369051672525773 / 2251799813685248)) (PFloat 1)
     = PFloat (8620851486211021 / 2251799813685248)"
    by (simp only: py_add.simps to_float.simps fl_backward_2)
qed

lemma route_length_forward:
  "calculate_route_length [(0, 0), (0, 1), (1, 0), (2, 1)]
     = PFloat (8620851486211020 / 2251799813685248)"
proof -
  have "calculate_route_length [(0, 0), (0, 1), (1, 0), (2, 1)]
      = length_loop (PFloat 0) [(0, 0), (0, 1), (1, 0), (2, 1)]"
    by (simp add: calculate_route_length_def)
  also have "\<dots> = PFloat (8620851486211020 / 2251799813685248)"
    by (simp only: length_loop.simps seg_dist_unit seg_dist_diag py_add_forward)
  finally show ?thesis .
qed

lemma route_length_backward:
  "calculate_route_length (rev [(0, 0), (0, 1), (1, 0), (2, 1)])
     = PFloat (8620851486211021 / 2251799813685248)"
proof -
  have "calculate_route_length (rev [(0, 0), (0, 1), (1, 0), (2, 1)])
      = length_loop (PFloat 0) [(2, 1), (1, 0), (0, 1), (0, 0)]"
    by (simp add: calculate_route_length_def)
  also have "\<dots> = PFloat (8620851486211021 / 2251799813685248)"
    by (simp only: length_loop.simps seg_dist_unit seg_dist_diag py_add_backward)
  finally show ?thesis .
qed


text \<open>
  C9, as stated, fails: \<open>calculate_route_length\<close> adds the segment lengths from left to right
  in binary64, and this addition is not associative.  On the route
  \<open>[(0, 0), (0, 1), (1, 0), (2, 1)]\<close>, with segment lengths \<open>1\<close>, \<open>sqrt 2\<close>, \<open>sqrt 2\<close>, the sum
  \<open>(1 + sqrt 2) + sqrt 2\<close> rounds twice at a tie and gives \<open>3.82842712474619\<close>, while the
  reversed route adds \<open>(sqrt 2 + sqrt 2) + 1\<close> without any rounding error and gives
  \<open>3.8284271247461903\<close>.
\<close>

theorem route_length_reverse_counterexample:
  "calculate_route_length (rev [(0, 0), (0, 1), (1, 0), (2, 1)])
     \<noteq> calculate_route_length [(0, 0), (0, 1), (1, 0), (2, 1)]"
  unfolding route_length_forward route_length_backward by simp

text \<open>
  C9, amended.  The length of a route and the length of the reversed route are the
  left-to-right binary64 sums of the same segment lengths, taken in opposite orders; for every
  route of at most three points the two lengths are equal.
\<close>

theorem route_length_reverse:
  "calculate_route_length route
     = foldl py_add (PFloat 0) (map (\<lambda>(a, b). seg_dist a b) (zip route (tl route)))
   \<and> calculate_route_length (rev route)
     = foldl py_add (PFloat 0) (rev (map (\<lambda>(a, b). seg_dist a b) (zip route (tl route))))
   \<and> (length route \<le> 3 \<longrightarrow> calculate_route_length (rev route) = calculate_route_length route)"
  using calculate_route_length_foldl [of route] calculate_route_length_foldl [of "rev route"]
    segs_rev [of route] route_length_rev_short [of route]
  by simp

theorem route_length_reverse_witness:
  "calculate_route_length (rev [(0, 0), (3, 4), (3, 14)]) = PFloat 15
   \<and> calculate_route_length [(0, 0), (3, 4), (3, 14)] = PFloat 15"
  using route_length_reverse [of "[(0, 0), (3, 4), (3, 14)]"]
  by (simp add: calculate_route_length_def seg_dist_345 seg_dist_10v fl_numeral)

section \<open>The point at the route's length\<close>

lemma fl_eval_near:
  assumes "2 powi E \<le> \<bar>x\<bar>" "\<bar>x\<bar> < 2 powi (E + 1)"
    and "\<bar>x / 2 powi (E - 52) - of_int m\<bar> < 1 / 2"
  shows "fl x = of_int m * 2 powi (E - 52)"
  using fl_binade [OF assms(1,2)] rhe_near [OF assms(3)] by simp

lemma fl_eval_tie:
  assumes "2 powi E \<le> \<bar>x\<bar>" "\<bar>x\<bar> < 2 powi (E + 1)"
    and "x / 2 powi (E - 52) = of_int m + 1 / 2" "even m"
  shows "fl x = of_int m * 2 powi (E - 52)"
  using fl_binade [OF assms(1,2)] rhe_tie_even [OF assms(3,4)] by simp

lemma fl_remaining:
  "fl (5436325649948134 / 2251799813685248 - 1) = 3184525836262886 / 2251799813685248"
  using fl_repr [of 3184525836262886 "- 51"] by (simp add: power_int_minus)

lemma fl_ratio:
  "fl ((3184525836262886 / 2251799813685248) / (6369051672525773 / 4503599627370496))
     = 9007199254740991 / 9007199254740992"
  using fl_eval_near [of "- 1"
      "(3184525836262886 / 2251799813685248) / (6369051672525773 / 4503599627370496)"
      9007199254740991]
  by (simp add: power_int_minus)

lemma fl_ratio_idem:
  "fl (9007199254740991 / 9007199254740992) = 9007199254740991 / 9007199254740992"
  using fl_repr [of 9007199254740991 "- 53"] by (simp add: power_int_minus)

lemma fl_ulp: "fl (1 / 9007199254740992) = 1 / 9007199254740992"
  using fl_repr [of 1 "- 53"] by (simp add: power_int_minus)

lemma walk_at_length:
  "walk (PFloat 0) (PFloat (5436325649948134 / 2251799813685248)) [(0, 0), (0, 1), (1, 0)]
     = Some (PFloat (9007199254740991 / 9007199254740992), PFloat (1 / 9007199254740992))"
proof -
  have s1: "py_le (PFloat (5436325649948134 / 2251799813685248)) (PFloat 1) = False"
    by (simp add: py_le_def)
  have s2: "py_le (PFloat (5436325649948134 / 2251799813685248))
              (PFloat (5436325649948134 / 2251799813685248)) = True"
    by (simp add: py_le_def)
  have s3: "py_eq (PFloat (6369051672525773 / 4503599627370496)) (PInt 0) = False"
    by (simp add: py_eq_def)
  have rem: "py_sub (PFloat (5436325649948134 / 2251799813685248)) (PFloat 1)
      = PFloat (3184525836262886 / 2251799813685248)"
    by (simp only: py_sub.simps to_float.simps fl_remaining)
  have ratio: "py_truediv (PFloat (3184525836262886 / 2251799813685248))
                 (PFloat (6369051672525773 / 4503599627370496))
      = PFloat (9007199254740991 / 9007199254740992)"
    by (simp only: py_truediv.simps to_float.simps fl_ratio)
  have x: "py_add (PInt (fst (0::int, 1::int)))
             (py_mul (PFloat (9007199254740991 / 9007199254740992))
                (PInt (fst (1::int, 0::int) - fst (0::int, 1::int))))
      = PFloat (9007199254740991 / 9007199254740992)"
    by (simp add: fl_one fl_ratio_idem)
  have y: "py_add (PInt (snd (0::int, 1::int)))
             (py_mul (PFloat (9007199254740991 / 9007199254740992))
                (PInt (snd (1::int, 0::int) - snd (0::int, 1::int))))
      = PFloat (1 / 9007199254740992)"
    by (simp add: fl_one fl_minus fl_ratio_idem fl_ulp)
  show ?thesis
    by (simp only: walk.simps Let_def seg_dist_unit seg_dist_diag py_add_forward s1 s2 s3
        rem ratio x y if_True if_False)
qed

lemma point_at_length:
  "get_point_at_distance [(0, 0), (0, 1), (1, 0)]
     (calculate_route_length [(0, 0), (0, 1), (1, 0)])
     = (PFloat (9007199254740991 / 9007199254740992), PFloat (1 / 9007199254740992))"
proof -
  have len: "calculate_route_length [(0, 0), (0, 1), (1, 0)]
      = PFloat (5436325649948134 / 2251799813685248)"
  proof -
    have "calculate_route_length [(0, 0), (0, 1), (1, 0)]
        = length_loop (PFloat 0) [(0, 0), (0, 1), (1, 0)]"
      by (simp add: calculate_route_length_def)
    also have "\<dots> = PFloat (5436325649948134 / 2251799813685248)"
      by (simp only: length_loop.simps seg_dist_unit seg_dist_diag py_add_forward)
    finally show ?thesis .
  qed
  have pos: "\<not> py_le (PFloat (5436325649948134 / 2251799813685248)) (PInt 0)"
    by (simp add: py_le_def)
  have two: "\<not> length [(0::int, 0::int), (0, 1), (1, 0)] < 2" by simp
  show ?thesis
    unfolding len get_point_at_distance_def walk_at_length using pos two by simp
qed

text \<open>
  C3, as stated with its source sentence \<open>pointAtDistance(route, length(route)) == route[last]\<close>,
  fails.  At the distance \<open>length(route)\<close> the loop matches the last segment and interpolates
  with the ratio \<open>(d - cumulative) / segment_length\<close>, which binary64 need not round to \<open>1\<close>.
  On \<open>[(0, 0), (0, 1), (1, 0)]\<close> the route length is \<open>fl (1 + sqrt 2)\<close>, the ratio is
  \<open>1 - 2^-53\<close>, and the point returned is \<open>(0.9999999999999999, 1.1102230246251565e-16)\<close>, not
  the last point \<open>(1, 0)\<close>.
\<close>

theorem get_point_at_distance_length_counterexample:
  "get_point_at_distance [(0, 0), (0, 1), (1, 0)]
     (calculate_route_length [(0, 0), (0, 1), (1, 0)])
     = (PFloat (9007199254740991 / 9007199254740992), PFloat (1 / 9007199254740992))
   \<and> \<not> py_eq (PFloat (9007199254740991 / 9007199254740992))
            (fst (as_pypoint (last [(0, 0), (0, 1), (1, 0)])))
   \<and> \<not> py_eq (PFloat (1 / 9007199254740992))
            (snd (as_pypoint (last [(0, 0), (0, 1), (1, 0)])))"
  using point_at_length by (simp add: py_eq_def as_pypoint_def)

text \<open>
  C3, amended.  \<open>get_point_at_distance\<close> on a route of fewer than two points returns the
  single point, or \<open>(0, 0)\<close> for the empty route.  On a route of at least two points it returns
  the first point when the distance is at most zero, and the last point when the distance is
  strictly greater than the route's length.  For every other distance, the route's length
  included, it walks the cumulative segment lengths: at the first segment \<open>A\<close>, \<open>B\<close> whose
  cumulative end length reaches the distance it returns \<open>A\<close> when the segment has length zero,
  and else \<open>A + ((d - cumulative) / segment_length) * (B - A)\<close>, every operation rounded to
  binary64; such a segment exists whenever the distance is positive and at most the route's
  length.  On \<open>[(0, 0), (10, 0), (10, 10)]\<close> the point at distance 15 is \<open>(10, 5)\<close>.
\<close>

theorem get_point_at_distance_spec:
  "get_point_at_distance [] d = (PInt 0, PInt 0)
   \<and> get_point_at_distance [p] d = as_pypoint p
   \<and> (2 \<le> length route \<and> py_le d (PInt 0) \<longrightarrow>
        get_point_at_distance route d = as_pypoint (hd route))
   \<and> (2 \<le> length route \<and> py_lt (calculate_route_length route) d \<longrightarrow>
        get_point_at_distance route d = as_pypoint (last route))
   \<and> (Suc i < length route \<and> py_lt (PInt 0) d
        \<and> (\<forall>j < i. py_lt (length_loop (PFloat 0) (take (j + 2) route)) d)
        \<and> py_le d (length_loop (PFloat 0) (take (i + 2) route)) \<longrightarrow>
        get_point_at_distance route d =
          (let A = route ! i; B = route ! Suc i;
               cumulative = length_loop (PFloat 0) (take (Suc i) route);
               segment_length = seg_dist A B
           in if py_eq segment_length (PInt 0) then as_pypoint A
              else let ratio = py_truediv (py_sub d cumulative) segment_length
                   in (py_add (PInt (fst A)) (py_mul ratio (PInt (fst B - fst A))),
                       py_add (PInt (snd A)) (py_mul ratio (PInt (snd B - snd A))))))
   \<and> (2 \<le> length route \<and> py_lt (PInt 0) d \<and> py_le d (calculate_route_length route) \<longrightarrow>
        (\<exists>i. Suc i < length route
           \<and> (\<forall>j < i. py_lt (length_loop (PFloat 0) (take (j + 2) route)) d)
           \<and> py_le d (length_loop (PFloat 0) (take (i + 2) route))))
   \<and> get_point_at_distance [(0, 0), (10, 0), (10, 10)] (PInt 15) = (PFloat 10, PFloat 5)
   \<and> py_eq (PFloat 10) (PInt 10) \<and> py_eq (PFloat 5) (PInt 5)"
proof (intro conjI impI)
  show "get_point_at_distance [] d = (PInt 0, PInt 0)"
    by (simp add: get_point_at_distance_def)
  show "get_point_at_distance [p] d = as_pypoint p"
    by (simp add: get_point_at_distance_def)
  show "get_point_at_distance route d = as_pypoint (hd route)"
    if h: "2 \<le> length route \<and> py_le d (PInt 0)"
  proof -
    have len: "\<not> length route < 2" using h by linarith
    show ?thesis using h len by (simp add: get_point_at_distance_def)
  qed
  show "get_point_at_distance route d = as_pypoint (last route)"
    if h: "2 \<le> length route \<and> py_lt (calculate_route_length route) d"
  proof -
    have len: "\<not> length route < 2" using h by linarith
    have tot: "val (length_loop (PFloat 0) route) < val d"
      using h len by (simp add: calculate_route_length_def py_lt_def)
    obtain r where r: "length_loop (PFloat 0) route = PFloat r" "0 \<le> r"
      using length_loop_ge [of 0 route] by auto
    have pos: "\<not> py_le d (PInt 0)" using tot r by (simp add: py_le_def)
    have "walk (PFloat 0) d route = None"
      using walk_None_iff [of 0 d route] tot by simp
    then show ?thesis using len pos by (simp add: get_point_at_distance_def)
  qed
  show "get_point_at_distance route d =
          (let A = route ! i; B = route ! Suc i;
               cumulative = length_loop (PFloat 0) (take (Suc i) route);
               segment_length = seg_dist A B
           in if py_eq segment_length (PInt 0) then as_pypoint A
              else let ratio = py_truediv (py_sub d cumulative) segment_length
                   in (py_add (PInt (fst A)) (py_mul ratio (PInt (fst B - fst A))),
                       py_add (PInt (snd A)) (py_mul ratio (PInt (snd B - snd A)))))"
    if h: "Suc i < length route \<and> py_lt (PInt 0) d
        \<and> (\<forall>j < i. py_lt (length_loop (PFloat 0) (take (j + 2) route)) d)
        \<and> py_le d (length_loop (PFloat 0) (take (i + 2) route))"
  proof -
    have a1: "Suc i < length route" using h by simp
    have a2: "\<forall>j < i. val (length_loop (PFloat 0) (take (j + 2) route)) < val d"
      using h by (simp add: py_lt_def)
    have a3: "val d \<le> val (length_loop (PFloat 0) (take (i + 2) route))"
      using h by (simp add: py_le_def)
    have pos: "\<not> py_le d (PInt 0)" using h by (simp add: py_le_def py_lt_def)
    have len: "\<not> length route < 2" using a1 by simp
    show ?thesis
      unfolding get_point_at_distance_def walk_match [OF a1 a2 a3]
      using pos len by (simp add: Let_def)
  qed
  show "\<exists>i. Suc i < length route
           \<and> (\<forall>j < i. py_lt (length_loop (PFloat 0) (take (j + 2) route)) d)
           \<and> py_le d (length_loop (PFloat 0) (take (i + 2) route))"
    if h: "2 \<le> length route \<and> py_lt (PInt 0) d \<and> py_le d (calculate_route_length route)"
  proof -
    have len: "\<not> length route < 2" using h by linarith
    have "val d \<le> val (length_loop (PFloat 0) route)"
      using h len by (simp add: calculate_route_length_def py_le_def)
    then show ?thesis
      using first_match_exists [of route d "PFloat 0"] h unfolding py_lt_def py_le_def by simp
  qed
  show "get_point_at_distance [(0, 0), (10, 0), (10, 10)] (PInt 15) = (PFloat 10, PFloat 5)"
    by (rule point_at_distance_example)
  show "py_eq (PFloat 10) (PInt 10)" by (simp add: py_eq_def)
  show "py_eq (PFloat 5) (PInt 5)" by (simp add: py_eq_def)
qed

theorem get_point_at_distance_spec_witness:
  "get_point_at_distance [(0, 0), (3, 4), (3, 14)] (PInt 10) = (PFloat 3, PFloat 9)
   \<and> get_point_at_distance [(0, 0), (3, 4), (3, 14)] (PInt 16) = (PInt 3, PInt 14)
   \<and> get_point_at_distance [(0, 0), (3, 4), (3, 14)] (PInt 0) = (PInt 0, PInt 0)"
  using
    get_point_at_distance_spec [where route = "[(0, 0), (3, 4), (3, 14)]" and d = "PInt 10"
      and i = 1, THEN conjunct2, THEN conjunct2, THEN conjunct2, THEN conjunct2, THEN conjunct1]
    get_point_at_distance_spec [where route = "[(0, 0), (3, 4), (3, 14)]" and d = "PInt 16",
      THEN conjunct2, THEN conjunct2, THEN conjunct2, THEN conjunct1]
    get_point_at_distance_spec [where route = "[(0, 0), (3, 4), (3, 14)]" and d = "PInt 0",
      THEN conjunct2, THEN conjunct2, THEN conjunct1]
  by (simp add: seg_dist_345 seg_dist_10v calculate_route_length_def py_lt_def py_le_def py_eq_def
      fl_numeral fl_half Let_def as_pypoint_def)

section \<open>The line test and the exact distance\<close>






























end
